theory Spec2Isabelle
  imports Main "HOL-Library.Multiset" "HOL-Library.Char_ord"
    "HOL-Library.List_Lexorder"
begin

section \<open>Data model of the job orchestrator (migrationJob.ts)\<close>

text \<open>
  A \<open>ScriptObject\<close> describes one migrated object type. The classes \<open>ScriptObject\<close> and
  \<open>MigrationJobTask\<close> are declared outside the files at hand; the record below holds
  exactly the members that \<open>MigrationJob\<close> reads or writes. The two parent collections are
  arrays of \<open>ScriptObject\<close> in the source, and \<open>setup\<close> reads nothing but the \<open>name\<close> of
  their elements (\<open>parentLookupObjects.some(x => x.name == ...)\<close>), so they are kept as
  the lists of those names.
\<close>

record ScriptObject =
  name :: string
  parentLookupObjects :: "string list"
  parentMasterDetailObjects :: "string list"
  allRecords :: bool
  isSpecialObject :: bool
  isObjectWithoutRelationships :: bool
  isReadonlyObject :: bool
  isLimitedQuery :: bool
  hasComplexExternalId :: bool
  hasAutonumberExternalId :: bool
  processAllSource :: bool
  processAllTarget :: bool

text \<open>
  A task is a heap object: \<open>queryTasks.indexOf(task)\<close> compares references, and the
  scan of \<open>setup\<close> mutates \<open>tempData.isMasterDetailTask\<close> of tasks that sit in the array.
  \<open>ref\<close> is the identity of the instance: \<open>new Task\<close> yields an object that is none of
  the tasks the job holds, and \<open>setup\<close> numbers the tasks it creates in the order of
  \<open>script.objects\<close>, from the first number above every task of the job (on a fresh job the
  position of the object in \<open>script.objects\<close>). \<open>isMasterDetailTask\<close> is the field
  \<open>tempData.isMasterDetailTask\<close>, unset on a new task.
\<close>

record Task =
  ref :: nat
  scriptObject :: ScriptObject
  isMasterDetailTask :: bool

text \<open>
  Modelled from the spec: \<open>CONSTANTS.RECORD_TYPE_SOBJECT_NAME\<close> is declared in statics.ts,
  which is not among the files; it names the designated record-type object. No proof below
  looks at the value.
\<close>

definition RECORD_TYPE_SOBJECT_NAME :: string where
  "RECORD_TYPE_SOBJECT_NAME = ''RecordType''"

text \<open>
  Modelled from the spec: \<open>new Task({scriptObject, job})\<close>; the constructor is not among
  the files. The scratch flag of a fresh task is unset.
\<close>

definition newTask :: "nat \<Rightarrow> ScriptObject \<Rightarrow> Task" where
  "newTask i objectToAdd = \<lparr>ref = i, scriptObject = objectToAdd, isMasterDetailTask = False\<rparr>"

section \<open>setup: the task chain\<close>

text \<open>Lines 66-79: the two process-all switches of the object being added.\<close>

definition setProcessAll :: "ScriptObject \<Rightarrow> ScriptObject" where
  "setProcessAll objectToAdd =
     (if allRecords objectToAdd \<or> isSpecialObject objectToAdd
         \<or> isObjectWithoutRelationships objectToAdd
      then objectToAdd\<lparr>processAllSource := True, processAllTarget := True\<rparr>
      else if hasComplexExternalId objectToAdd \<or> hasAutonumberExternalId objectToAdd
      then objectToAdd\<lparr>processAllSource := False, processAllTarget := True\<rparr>
      else objectToAdd\<lparr>processAllSource := False, processAllTarget := False\<rparr>)"

text \<open>\<open>Array.prototype.splice(i, 0, x)\<close>; an index past the end appends.\<close>

definition splice0 :: "nat \<Rightarrow> 'a \<Rightarrow> 'a list \<Rightarrow> 'a list" where
  "splice0 i x xs = take i xs @ x # drop i xs"

text \<open>
  Lines 98-113: the loop over the existing tasks, from the tail down to
  \<open>lowerIndexForAnyObjects\<close>. The first argument after the floor is
  \<open>existedTaskIndex + 1\<close>, so that the loop ends below index 0 as it does in the source.
  The state is the task array (whose elements the loop flags) and \<open>indexToInsert\<close>.
\<close>

fun scanExisting :: "ScriptObject \<Rightarrow> nat \<Rightarrow> nat \<Rightarrow> Task list \<times> nat \<Rightarrow> Task list \<times> nat" where
  "scanExisting objectToAdd lowerIndexForAnyObjects 0 st = st"
| "scanExisting objectToAdd lowerIndexForAnyObjects (Suc existedTaskIndex) (ts, indexToInsert) =
     (if existedTaskIndex < lowerIndexForAnyObjects then (ts, indexToInsert)
      else
        let existedTask = ts ! existedTaskIndex;
            isObjectToAdd_ParentLookup =
              (name objectToAdd \<in> set (parentLookupObjects (scriptObject existedTask)));
            isExistedTask_ParentMasterDetail =
              (name (scriptObject existedTask) \<in> set (parentMasterDetailObjects objectToAdd)
               \<or> isMasterDetailTask existedTask)
        in scanExisting objectToAdd lowerIndexForAnyObjects existedTaskIndex
             (if isObjectToAdd_ParentLookup \<and> \<not> isExistedTask_ParentMasterDetail
              then (ts, existedTaskIndex)
              else if isExistedTask_ParentMasterDetail
              then (ts[existedTaskIndex := existedTask\<lparr>isMasterDetailTask := True\<rparr>],
                    indexToInsert)
              else (ts, indexToInsert)))"

text \<open>
  The loop state of \<open>setup\<close>: the task array and the two floors
  \<open>lowerIndexForAnyObjects\<close> and \<open>lowerIndexForReadonlyObjects\<close>.
\<close>

record SetupState =
  chain :: "Task list"
  lowerIndexForAnyObjects :: nat
  lowerIndexForReadonlyObjects :: nat

text \<open>Lines 59-119: the body of the \<open>forEach\<close>, for the object at position \<open>i\<close>.\<close>

definition addObject :: "nat \<times> ScriptObject \<Rightarrow> SetupState \<Rightarrow> SetupState" where
  "addObject io s =
     (let objectToAdd = setProcessAll (snd io);
          task = newTask (fst io) objectToAdd
      in if name objectToAdd = RECORD_TYPE_SOBJECT_NAME
         then s\<lparr>chain := task # chain s,
                lowerIndexForAnyObjects := lowerIndexForAnyObjects s + 1,
                lowerIndexForReadonlyObjects := lowerIndexForReadonlyObjects s + 1\<rparr>
         else if isReadonlyObject objectToAdd
         then s\<lparr>chain := splice0 (lowerIndexForReadonlyObjects s) task (chain s),
                lowerIndexForAnyObjects := lowerIndexForAnyObjects s + 1\<rparr>
         else if length (chain s) = 0
         then s\<lparr>chain := chain s @ [task]\<rparr>
         else
           let (ts, indexToInsert) =
                 scanExisting objectToAdd (lowerIndexForAnyObjects s) (length (chain s))
                   (chain s, length (chain s))
           in s\<lparr>chain := splice0 indexToInsert task ts\<rparr>)"

text \<open>The identity of the next new task: above the identity of every task in the array.\<close>

definition nextRef :: "Task list \<Rightarrow> nat" where
  "nextRef ts = fold (\<lambda>t n. max (Suc (ref t)) n) ts 0"

text \<open>
  Lines 59-119: the \<open>forEach\<close> over \<open>script.objects\<close>, on the task array \<open>ts0\<close> that the
  job holds when \<open>setup\<close> starts; both floors start at 0.
\<close>

definition buildChain :: "ScriptObject list \<Rightarrow> Task list \<Rightarrow> SetupState" where
  "buildChain objs ts0 =
     fold addObject (enumerate (nextRef ts0) objs)
       \<lparr>chain = ts0, lowerIndexForAnyObjects = 0, lowerIndexForReadonlyObjects = 0\<rparr>"


section \<open>The cached CSV content\<close>

type_synonym csvRow = "(string \<times> string) list"

text \<open>
  \<open>csvDataCacheMap\<close> is a \<open>Map\<close> from a file path to a \<open>Map\<close> from a row id to the row, and
  \<open>updatedFilenames\<close> a \<open>Set\<close> of file paths: both iterate in insertion order, so both are
  lists here. \<open>idCounter\<close> is a JavaScript number that starts at 1 and only ever grows by
  \<open>idCounter++\<close>; such a number is a whole number of the range where doubles are exact.
\<close>

record CachedCSVContent =
  csvDataCacheMap :: "(string \<times> (string \<times> csvRow) list) list"
  updatedFilenames :: "string list"
  idCounter :: nat

text \<open>
  \<open>x++\<close> on a JavaScript number holding a whole number: doubles represent every whole
  number up to \<open>2 ^ 53\<close>, and \<open>2 ^ 53 + 1\<close> rounds back (to even) to \<open>2 ^ 53\<close>.
\<close>

definition number_increment :: "nat \<Rightarrow> nat" where
  "number_increment n = (if n < 2 ^ 53 then n + 1 else n)"

text \<open>\<open>String(n)\<close> for a whole number below \<open>10 ^ 21\<close>: its decimal digits.\<close>

function String_of_number :: "nat \<Rightarrow> string" where
  "String_of_number n =
     (if n < 10 then [''0123456789'' ! n]
      else String_of_number (n div 10) @ [''0123456789'' ! (n mod 10)])"
  by pat_completeness auto
termination
  by (relation "measure (\<lambda>n. n)") auto

declare String_of_number.simps [simp del]

text \<open>
  Modelled from the spec: \<open>Common.addLeadnigZeros(num, size)\<close> is declared in common.ts,
  which is not among the files. The spec gives the identifiers as the prefix followed by
  the counter, zero-padded to 16 decimal digits: zeros are put in front of the decimal
  digits for as long as they are fewer than \<open>size\<close>.
\<close>

definition addLeadnigZeros :: "nat \<Rightarrow> nat \<Rightarrow> string" where
  "addLeadnigZeros num size' =
     replicate (size' - length (String_of_number num)) CHR ''0'' @ String_of_number num"

text \<open>Lines 528-530: the getter returns the identifier and leaves the counter incremented.\<close>

definition nextId :: "CachedCSVContent \<Rightarrow> string \<times> CachedCSVContent" where
  "nextId c =
     (''ID'' @ addLeadnigZeros (idCounter c) 16, c\<lparr>idCounter := number_increment (idCounter c)\<rparr>)"

text \<open>Lines 538-542; the constructor (lines 511-513) does nothing but call it.\<close>

definition clear :: "CachedCSVContent \<Rightarrow> CachedCSVContent" where
  "clear c = c\<lparr>csvDataCacheMap := [], updatedFilenames := [], idCounter := 1\<rparr>"

definition CachedCSVContent_new :: CachedCSVContent where
  "CachedCSVContent_new = clear \<lparr>csvDataCacheMap = [], updatedFilenames = [], idCounter = 0\<rparr>"

text \<open>\<open>n\<close> successive reads of \<open>nextId\<close>: the identifiers read, and the cache left behind.\<close>

fun nextIds :: "nat \<Rightarrow> CachedCSVContent \<Rightarrow> string list \<times> CachedCSVContent" where
  "nextIds 0 c = ([], c)"
| "nextIds (Suc n) c =
     (let (i, c') = nextId c; (is, c'') = nextIds n c' in (i # is, c''))"


section \<open>The job, its collaborators and the trace of a run\<close>

text \<open>
  Modelled from the spec: the enumerations \<open>DATA_MEDIA_TYPE\<close> (statics.ts) and \<open>RESOURCES\<close>
  (logger.ts) are not among the files. Of the first only \<open>File\<close> is read here; the second
  lists the messages that \<open>MigrationJob\<close> passes to the logger.
\<close>

datatype DATA_MEDIA_TYPE = Org | File

datatype RESOURCES =
    newLine | separator | queryingOrder | executionOrder | gettingRecordsCount
  | deletingOldData | deletingOldDataCompleted | deletingOldDataSkipped
  | retrievingData | retrievingDataCompleted | Step1 | Step2 | Pass1 | Pass2 | Pass3
  | noRecords | target | fetchingSummary | queryingTotallyFetched
  | updatingTarget | updatingTargetCompleted | nothingUpdated
  | validatingAndFixingSourceCSVFiles | validationAndFixingsourceCSVFilesCompleted
  | validatingSourceCSVFilesSkipped | writingToCSV | readingValuesMappingFile
  | csvFilesWereUpdated | issuesFoundDuringCSVValidation | noIssuesFoundDuringCSVValidation
  | continueTheJobPrompt

text \<open>The columns of the issues report (lines 498-507).\<close>

record ICSVIssues =
  Date :: string
  Child_value :: string
  Child_sObject :: string
  Child_field :: string
  Parent_value :: string
  Parent_sObject :: string
  Parent_field :: string
  Error :: string

definition issueRow :: "ICSVIssues \<Rightarrow> csvRow" where
  "issueRow i =
     [(''Date'', Date i), (''Child value'', Child_value i), (''Child sObject'', Child_sObject i),
      (''Child field'', Child_field i), (''Parent value'', Parent_value i),
      (''Parent sObject'', Parent_sObject i), (''Parent field'', Parent_field i),
      (''Error'', Error i)]"

text \<open>The members of \<open>Script\<close> that the job reads.\<close>

record Script =
  objects :: "ScriptObject list"
  sourceOrg_media :: DATA_MEDIA_TYPE
  importCSVFilesAsIs :: bool
  validateCSVFilesOnly :: bool
  promptOnIssuesInCSVFiles :: bool
  basePath :: string

record MigrationJob =
  script :: Script
  tasks :: "Task list"
  queryTasks :: "Task list"
  csvValuesMapping :: "(string \<times> (string \<times> string) list) list"
  csvIssues :: "ICSVIssues list"
  cachedCSVContent :: CachedCSVContent

text \<open>The field initialisers of lines 21-25, for \<open>new MigrationJob({script})\<close>.\<close>

definition MigrationJob_new :: "Script \<Rightarrow> MigrationJob" where
  "MigrationJob_new scr =
     \<lparr>script = scr, tasks = [], queryTasks = [], csvValuesMapping = [], csvIssues = [],
      cachedCSVContent = CachedCSVContent_new\<rparr>"

text \<open>
  Everything the job calls outside its own file is a collaborator: the operations of a
  task, the helpers of \<open>Common\<close>, \<open>path\<close>, \<open>fs\<close>, the resource strings and three
  constants of \<open>CONSTANTS\<close>. None of them is among the files, so each is a parameter. The
  world \<open>'w\<close> is whatever they act on (the two orgs, the file system, the console, the
  record sets of the tasks); an operation reads the world and returns its result and the
  new world. A task's update count is a number of records, a natural number.
  \<open>common_abortWithPrompt\<close> answers with two booleans: whether it ran the callback it was
  given (\<open>onBeforeAbortAsync\<close>), and whether it threw (the user declined).
\<close>

record 'w Collaborators =
  getResourceString :: "RESOURCES \<Rightarrow> string"
  path_join :: "string \<Rightarrow> string \<Rightarrow> string"
  CSV_ISSUES_ERRORS_FILENAME :: string
  VALUE_MAPPING_CSV_FILENAME :: string
  USER_AND_GROUP_FILENAME :: string
  sourceData_allRecords :: "Task \<Rightarrow> bool"
  data_csvFilename :: "Task \<Rightarrow> string"
  data_sourceCsvFilename :: "Task \<Rightarrow> string"
  extIdRecordsMap_sizes :: "Task \<Rightarrow> 'w \<Rightarrow> nat \<times> nat"
  task_getTotalRecordsCountAsync :: "Task \<Rightarrow> 'w \<Rightarrow> 'w"
  task_deleteOldTargetRecords :: "Task \<Rightarrow> 'w \<Rightarrow> bool \<times> 'w"
  task_retrieveRecords :: "Task \<Rightarrow> string \<Rightarrow> bool \<Rightarrow> 'w \<Rightarrow> bool \<times> 'w"
  task_updateRecords :: "Task \<Rightarrow> string \<Rightarrow> 'w \<Rightarrow> nat \<times> 'w"
  task_validateCSV :: "Task \<Rightarrow> 'w \<Rightarrow> ICSVIssues list \<times> 'w"
  task_repairCSV ::
    "Task \<Rightarrow> CachedCSVContent \<Rightarrow> 'w \<Rightarrow> (ICSVIssues list \<times> CachedCSVContent) \<times> 'w"
  common_abortWithPrompt :: "bool \<Rightarrow> string list \<Rightarrow> 'w \<Rightarrow> (bool \<times> bool) \<times> 'w"
  common_writeCsvFileAsync :: "string \<Rightarrow> csvRow list \<Rightarrow> 'w \<Rightarrow> 'w"
  common_readCsvFileAsync :: "string \<Rightarrow> 'w \<Rightarrow> csvRow list \<times> 'w"
  common_mergeCsvFilesAsync :: "string \<Rightarrow> string \<Rightarrow> string \<Rightarrow> 'w \<Rightarrow> 'w"
  fs_existsSync :: "string \<Rightarrow> 'w \<Rightarrow> bool"
  fs_copyFileSync :: "string \<Rightarrow> string \<Rightarrow> 'w \<Rightarrow> 'w"

text \<open>
  The trace of a run: every call of the logger and of a collaborator that acts on the
  world, in the order in which the job makes them. A task is named by its \<open>ref\<close>; a call
  that returns a result carries it.
\<close>

datatype event =
    Logger string RESOURCES "string list"
  | Logger_objectMinimal string string
  | Task_getTotalRecordsCountAsync nat
  | Task_deleteOldTargetRecords nat bool
  | Task_retrieveRecords nat string bool bool
  | Task_updateRecords nat string nat
  | Task_validateCSV nat "ICSVIssues list"
  | Task_repairCSV nat "ICSVIssues list"
  | Common_abortWithPrompt RESOURCES bool RESOURCES string "string list"
  | Common_writeCsvFileAsync string "csvRow list"
  | Common_readCsvFileAsync string
  | Common_mergeCsvFilesAsync string string string
  | Fs_copyFileSync string string

type_synonym 'w run = "'w \<times> event list"

definition logger :: "string \<Rightarrow> RESOURCES \<Rightarrow> string list \<Rightarrow> 'w run \<Rightarrow> 'w run" where
  "logger method message tokens r = (fst r, snd r @ [Logger method message tokens])"

text \<open>What a method of the job can throw: \<open>SuccessExit\<close> (line 168), or the abort of a declined prompt.\<close>

datatype thrown = SuccessExit | CommandAbortedByUser


section \<open>setup: the query order (lines 50-141)\<close>

text \<open>\<open>Array.prototype.indexOf\<close> on an array of tasks: the elements are compared as references.\<close>

fun indexOf :: "Task list \<Rightarrow> Task \<Rightarrow> int" where
  "indexOf [] task = - 1"
| "indexOf (x # xs) task =
     (if ref x = ref task then 0
      else let i = indexOf xs task in if i < 0 then - 1 else i + 1)"

text \<open>Lines 122-127 and 128-132: the two \<open>forEach\<close> loops that fill \<open>queryTasks\<close>.\<close>

definition pushUnrestricted :: "'w Collaborators \<Rightarrow> Task list \<Rightarrow> Task list \<Rightarrow> Task list" where
  "pushUnrestricted cap ts q0 =
     fold (\<lambda>task q. if sourceData_allRecords cap task \<or> isLimitedQuery (scriptObject task)
                     then q @ [task] else q) ts q0"

definition pushRemaining :: "Task list \<Rightarrow> Task list \<Rightarrow> Task list" where
  "pushRemaining ts q0 = fold (\<lambda>task q. if indexOf q task < 0 then q @ [task] else q) ts q0"

text \<open>Modelled from the spec: the getter \<open>sObjectName\<close> of a task, the name of its object.\<close>

definition sObjectName :: "Task \<Rightarrow> string" where
  "sObjectName task = name (scriptObject task)"

fun join :: "string \<Rightarrow> string list \<Rightarrow> string" where
  "join sep [] = []"
| "join sep [x] = x"
| "join sep (x # y # ys) = x @ sep @ join sep (y # ys)"

text \<open>
  \<open>MigrationJob.setup\<close>. The objects of the script are mutated in place by lines 66-79; a task holds a
  reference to its object, so it sees the switches as set. \<open>this.script.job = this\<close> is a
  back reference that nothing here reads.
\<close>

definition setup_job :: "'w Collaborators \<Rightarrow> MigrationJob \<Rightarrow> 'w run \<Rightarrow> MigrationJob \<times> 'w run" where
  "setup_job cap job r =
     (let s = buildChain (objects (script job)) (tasks job);
          job1 = job\<lparr>script := (script job)\<lparr>objects := map setProcessAll (objects (script job))\<rparr>,
                     tasks := chain s\<rparr>;
          job2 = job1\<lparr>queryTasks := pushUnrestricted cap (tasks job1) (queryTasks job1)\<rparr>;
          job3 = job2\<lparr>queryTasks := pushRemaining (tasks job2) (queryTasks job2)\<rparr>;
          tr1 = snd r @ [Logger_objectMinimal (getResourceString cap queryingOrder)
                           (join ''; '' (map sObjectName (queryTasks job3)))];
          tr2 = tr1 @ [Logger_objectMinimal (getResourceString cap executionOrder)
                         (join ''; '' (map sObjectName (tasks job3)))]
      in (job3, (fst r, tr2)))"

section \<open>The per-task loops (lines 186-343)\<close>

fun countLoop :: "'w Collaborators \<Rightarrow> Task list \<Rightarrow> 'w run \<Rightarrow> 'w run" where
  "countLoop cap [] r = r"
| "countLoop cap (task # rest) (w, tr) =
     countLoop cap rest
       (task_getTotalRecordsCountAsync cap task w, tr @ [Task_getTotalRecordsCountAsync (ref task)])"

definition getTotalRecordsCount :: "'w Collaborators \<Rightarrow> MigrationJob \<Rightarrow> 'w run \<Rightarrow> 'w run" where
  "getTotalRecordsCount cap job r =
     countLoop cap (tasks job)
       (logger ''headerMinimal'' gettingRecordsCount [] (logger ''infoMinimal'' newLine [] r))"



text \<open>
  One loop of \<open>retrieveRecords\<close> (lines 233-236, 252-255, 265-268, 279-282, 293-296):
  \<open>retrieved = await task.retrieveRecords(direction, reversed) || retrieved\<close> for the
  tasks of \<open>queryTasks\<close>, first to last.
\<close>

fun retrieveLoop ::
  "'w Collaborators \<Rightarrow> string \<Rightarrow> bool \<Rightarrow> Task list \<Rightarrow> bool \<times> 'w run \<Rightarrow> bool \<times> 'w run" where
  "retrieveLoop cap direction reversed [] st = st"
| "retrieveLoop cap direction reversed (task # rest) (retrieved, (w, tr)) =
     (let (b, w') = task_retrieveRecords cap task direction reversed w
      in retrieveLoop cap direction reversed rest
           (b \<or> retrieved, (w', tr @ [Task_retrieveRecords (ref task) direction reversed b])))"

text \<open>The loop with \<open>retrieved\<close> reset before it and the \<open>noRecords\<close> message after it.\<close>

definition retrievePass :: "'w Collaborators \<Rightarrow> string \<Rightarrow> bool \<Rightarrow> Task list \<Rightarrow> 'w run \<Rightarrow> 'w run" where
  "retrievePass cap direction reversed ts r =
     (let (retrieved, r1) = retrieveLoop cap direction reversed ts (False, r)
      in if \<not> retrieved then logger ''infoNormal'' noRecords [] r1 else r1)"

text \<open>Lines 228-240, step 1.\<close>

definition retrieveRecords_step1 :: "'w Collaborators \<Rightarrow> MigrationJob \<Rightarrow> 'w run \<Rightarrow> 'w run" where
  "retrieveRecords_step1 cap job r =
     (let r1 = logger ''infoMinimal'' newLine [] r;
          r2 = logger ''headerMinimal'' retrievingData [getResourceString cap Step1] r1;
          r3 = retrievePass cap ''forwards'' False (queryTasks job) r2
      in logger ''infoNormal'' retrievingDataCompleted [getResourceString cap Step1] r3)"

text \<open>Lines 243-285, step 2 with its three passes.\<close>

definition retrieveRecords_step2 :: "'w Collaborators \<Rightarrow> MigrationJob \<Rightarrow> 'w run \<Rightarrow> 'w run" where
  "retrieveRecords_step2 cap job r =
     (let r1 = logger ''infoMinimal'' newLine [] r;
          r2 = logger ''headerMinimal'' retrievingData [getResourceString cap Step2] r1;
          r3 = logger ''infoNormal'' separator [] (logger ''infoNormal'' Pass1 [] r2);
          r4 = retrievePass cap ''backwards'' False (queryTasks job) r3;
          r5 = logger ''infoNormal'' separator []
                 (logger ''infoNormal'' Pass2 [] (logger ''infoNormal'' newLine [] r4));
          r6 = retrievePass cap ''backwards'' False (queryTasks job) r5;
          r7 = logger ''infoNormal'' separator []
                 (logger ''infoNormal'' Pass3 [] (logger ''infoNormal'' newLine [] r6))
      in retrievePass cap ''forwards'' True (queryTasks job) r7)"

text \<open>Lines 287-300, step 3.\<close>

definition retrieveRecords_step3 :: "'w Collaborators \<Rightarrow> MigrationJob \<Rightarrow> 'w run \<Rightarrow> 'w run" where
  "retrieveRecords_step3 cap job r =
     (let r1 = logger ''infoMinimal'' newLine [] r;
          r2 = logger ''infoMinimal'' separator [] (logger ''infoMinimal'' target [] r1);
          r3 = retrievePass cap ''target'' False (queryTasks job) r2
      in logger ''infoNormal'' retrievingDataCompleted [getResourceString cap Step2] r3)"

text \<open>Lines 302-310, the summary: \<open>String(sourceSize + "/" + targetSize)\<close> per task.\<close>

fun summaryLoop :: "'w Collaborators \<Rightarrow> Task list \<Rightarrow> 'w run \<Rightarrow> 'w run" where
  "summaryLoop cap [] r = r"
| "summaryLoop cap (task # rest) r =
     summaryLoop cap rest
       (logger ''infoNormal'' queryingTotallyFetched
          [sObjectName task,
           String_of_number (fst (extIdRecordsMap_sizes cap task (fst r))) @ ''/''
             @ String_of_number (snd (extIdRecordsMap_sizes cap task (fst r)))] r)"

definition retrieveRecords :: "'w Collaborators \<Rightarrow> MigrationJob \<Rightarrow> 'w run \<Rightarrow> 'w run" where
  "retrieveRecords cap job r =
     (let r1 = retrieveRecords_step1 cap job r;
          r2 = retrieveRecords_step2 cap job r1;
          r3 = retrieveRecords_step3 cap job r2;
          r4 = logger ''headerNormal'' fetchingSummary [] (logger ''infoNormal'' newLine [] r3)
      in summaryLoop cap (queryTasks job) r4)"

text \<open>Lines 319-322 and 334-337: \<open>updated += await task.updateRecords(direction)\<close>.\<close>

fun updateLoop :: "'w Collaborators \<Rightarrow> string \<Rightarrow> Task list \<Rightarrow> nat \<times> 'w run \<Rightarrow> nat \<times> 'w run" where
  "updateLoop cap direction [] st = st"
| "updateLoop cap direction (task # rest) (updated, (w, tr)) =
     (let (n, w') = task_updateRecords cap task direction w
      in updateLoop cap direction rest
           (updated + n, (w', tr @ [Task_updateRecords (ref task) direction n])))"

definition updateRecords_step ::
  "'w Collaborators \<Rightarrow> RESOURCES \<Rightarrow> string \<Rightarrow> MigrationJob \<Rightarrow> 'w run \<Rightarrow> 'w run" where
  "updateRecords_step cap step direction job r =
     (let r1 = logger ''infoMinimal'' newLine [] r;
          r2 = logger ''headerMinimal'' updatingTarget [getResourceString cap step] r1;
          (updated, r3) = updateLoop cap direction (tasks job) (0, r2)
      in if updated > 0
         then logger ''infoNormal'' updatingTargetCompleted [getResourceString cap step] r3
         else logger ''infoNormal'' nothingUpdated [] r3)"

definition updateRecords :: "'w Collaborators \<Rightarrow> MigrationJob \<Rightarrow> 'w run \<Rightarrow> 'w run" where
  "updateRecords cap job r =
     updateRecords_step cap Step2 ''backwards'' job (updateRecords_step cap Step1 ''forwards'' job r)"

section \<open>The CSV pipeline (lines 150-178 and 364-486)\<close>

text \<open>\<open>Map.prototype.set\<close> on an insertion-ordered map: a key that is present keeps its place.\<close>

fun Map_set :: "'k \<Rightarrow> 'v \<Rightarrow> ('k \<times> 'v) list \<Rightarrow> ('k \<times> 'v) list" where
  "Map_set k v [] = [(k, v)]"
| "Map_set k v (p # ps) = (if fst p = k then (k, v) # ps else p # Map_set k v ps)"

text \<open>
  \<open>String(x)\<close> for a cell of a CSV row: a string, or \<open>undefined\<close> when the row has no such
  column.
\<close>

definition String_of_cell :: "string option \<Rightarrow> string" where
  "String_of_cell x = (case x of None \<Rightarrow> ''undefined'' | Some s \<Rightarrow> s)"

text \<open>
  \<open>String.prototype.trim\<close> removes white space and line terminators from both ends of a
  string: the code points U+0009 to U+000D, U+0020, U+00A0, U+1680, U+2000 to U+200A,
  U+2028, U+2029, U+202F, U+205F, U+3000 and U+FEFF. A string is the list of the bytes of
  its UTF-8 encoding, in which these code points are the byte sequences of \<open>whiteSpace\<close>.
\<close>

definition whiteSpace :: "string list" where
  "whiteSpace =
     [[CHR 0x09], [CHR 0x0A], [CHR 0x0B], [CHR 0x0C], [CHR 0x0D], [CHR 0x20],
      [CHR 0xC2, CHR 0xA0],
      [CHR 0xE1, CHR 0x9A, CHR 0x80],
      [CHR 0xE2, CHR 0x80, CHR 0x80], [CHR 0xE2, CHR 0x80, CHR 0x81],
      [CHR 0xE2, CHR 0x80, CHR 0x82], [CHR 0xE2, CHR 0x80, CHR 0x83],
      [CHR 0xE2, CHR 0x80, CHR 0x84], [CHR 0xE2, CHR 0x80, CHR 0x85],
      [CHR 0xE2, CHR 0x80, CHR 0x86], [CHR 0xE2, CHR 0x80, CHR 0x87],
      [CHR 0xE2, CHR 0x80, CHR 0x88], [CHR 0xE2, CHR 0x80, CHR 0x89],
      [CHR 0xE2, CHR 0x80, CHR 0x8A],
      [CHR 0xE2, CHR 0x80, CHR 0xA8], [CHR 0xE2, CHR 0x80, CHR 0xA9],
      [CHR 0xE2, CHR 0x80, CHR 0xAF],
      [CHR 0xE2, CHR 0x81, CHR 0x9F],
      [CHR 0xE3, CHR 0x80, CHR 0x80],
      [CHR 0xEF, CHR 0xBB, CHR 0xBF]]"

text \<open>Removes from the front of \<open>s\<close> every leading occurrence of a sequence of \<open>ws\<close>.\<close>

function stripStart :: "string list \<Rightarrow> string \<Rightarrow> string" where
  "stripStart ws s =
     (case List.find (\<lambda>w. w \<noteq> [] \<and> take (length w) s = w) ws of
        None \<Rightarrow> s
      | Some w \<Rightarrow> stripStart ws (drop (length w) s))"
  by pat_completeness auto

termination
proof (relation "measure (\<lambda>p. length (snd p))")
  show "wf (measure (\<lambda>p. length (snd p)))" by simp
next
  fix ws :: "string list" and s w :: string
  assume "List.find (\<lambda>w. w \<noteq> [] \<and> take (length w) s = w) ws = Some w"
  then have "w \<noteq> [] \<and> take (length w) s = w" by (auto simp add: find_Some_iff)
  then have w: "w \<noteq> []" and t: "take (length w) s = w" by simp_all
  from t have "length (take (length w) s) = length w" by simp
  then have "length w \<le> length s" by simp
  moreover from w have "0 < length w" by simp
  ultimately have "length s - length w < length s" by arith
  then show "((ws, drop (length w) s), (ws, s)) \<in> measure (\<lambda>p. length (snd p))" by simp
qed

declare stripStart.simps [simp del]

definition trimStart :: "string \<Rightarrow> string" where
  "trimStart s = stripStart whiteSpace s"

definition trimEnd :: "string \<Rightarrow> string" where
  "trimEnd s = rev (stripStart (map rev whiteSpace) (rev s))"

definition trim :: "string \<Rightarrow> string" where
  "trim s = trimEnd (trimStart s)"

text \<open>Lines 364-368.\<close>

definition saveCSVFileAsync ::
  "'w Collaborators \<Rightarrow> MigrationJob \<Rightarrow> string \<Rightarrow> csvRow list \<Rightarrow> 'w run \<Rightarrow> 'w run" where
  "saveCSVFileAsync cap job fileName data r =
     (let filePath = path_join cap (basePath (script job)) fileName;
          r1 = logger ''infoVerbose'' writingToCSV [filePath] r
      in (common_writeCsvFileAsync cap filePath data (fst r1),
          snd r1 @ [Common_writeCsvFileAsync filePath data]))"

text \<open>
  Lines 376-386: the keys of the cache in insertion order; a file is written when it is
  in \<open>updatedFilenames\<close>. A key of the map has a value, so the \<open>None\<close> branch is never taken.
\<close>

fun saveCachedLoop :: "'w Collaborators \<Rightarrow> CachedCSVContent \<Rightarrow> string list \<Rightarrow> 'w run \<Rightarrow> 'w run" where
  "saveCachedLoop cap cache [] r = r"
| "saveCachedLoop cap cache (filePath # rest) r =
     saveCachedLoop cap cache rest
       (if filePath \<in> set (updatedFilenames cache)
        then (case map_of (csvDataCacheMap cache) filePath of
                None \<Rightarrow> r
              | Some csvData \<Rightarrow>
                  let r1 = logger ''infoVerbose'' writingToCSV [filePath] r
                  in (common_writeCsvFileAsync cap filePath (map snd csvData) (fst r1),
                      snd r1 @ [Common_writeCsvFileAsync filePath (map snd csvData)]))
        else r)"

definition saveCachedCsvDataFiles :: "'w Collaborators \<Rightarrow> MigrationJob \<Rightarrow> 'w run \<Rightarrow> 'w run" where
  "saveCachedCsvDataFiles cap job r =
     saveCachedLoop cap (cachedCSVContent job) (map fst (csvDataCacheMap (cachedCSVContent job))) r"

text \<open>Lines 393-395.\<close>

definition clearCachedCSVData :: "MigrationJob \<Rightarrow> MigrationJob" where
  "clearCachedCSVData job = job\<lparr>cachedCSVContent := clear (cachedCSVContent job)\<rparr>"

text \<open>
  Lines 405-413, the body of the \<open>forEach\<close> over the rows of the value mapping file. A
  row counts when its \<open>ObjectName\<close> and \<open>FieldName\<close> are truthy (present and not empty).
\<close>

definition addValueMapping ::
  "csvRow \<Rightarrow> (string \<times> (string \<times> string) list) list \<Rightarrow> (string \<times> (string \<times> string) list) list" where
  "addValueMapping row m =
     (if map_of row ''ObjectName'' \<notin> {None, Some []} \<and> map_of row ''FieldName'' \<notin> {None, Some []}
      then
        let key = trim (String_of_cell (map_of row ''ObjectName''))
                    @ trim (String_of_cell (map_of row ''FieldName''));
            m1 = (if map_of m key = None then Map_set key [] m else m);
            inner = (case map_of m1 key of None \<Rightarrow> [] | Some i \<Rightarrow> i)
        in Map_set key
             (Map_set (trim (String_of_cell (map_of row ''RawValue'')))
                (trim (String_of_cell (map_of row ''Value''))) inner) m1
      else m)"

text \<open>Lines 400-415. Private members lose their leading underscore here.\<close>

definition loadCSVValueMappingFileAsync ::
  "'w Collaborators \<Rightarrow> MigrationJob \<Rightarrow> 'w run \<Rightarrow> MigrationJob \<times> 'w run" where
  "loadCSVValueMappingFileAsync cap job r =
     (let valueMappingFilePath = path_join cap (basePath (script job)) (VALUE_MAPPING_CSV_FILENAME cap);
          (csvRows, w1) = common_readCsvFileAsync cap valueMappingFilePath (fst r);
          r1 = (w1, snd r @ [Common_readCsvFileAsync valueMappingFilePath])
      in if length csvRows > 0
         then (job\<lparr>csvValuesMapping := fold addValueMapping csvRows (csvValuesMapping job)\<rparr>,
               logger ''infoVerbose'' readingValuesMappingFile [VALUE_MAPPING_CSV_FILENAME cap] r1)
         else (job, r1))"

text \<open>Lines 418-423; the other arguments of the call are the constants \<open>true\<close>, "Id", "Name".\<close>

definition mergeUserGroupCSVfiles :: "'w Collaborators \<Rightarrow> MigrationJob \<Rightarrow> 'w run \<Rightarrow> 'w run" where
  "mergeUserGroupCSVfiles cap job r =
     (let filepath1 = path_join cap (basePath (script job)) ''User.csv'';
          filepath2 = path_join cap (basePath (script job)) ''Group.csv'';
          filepath3 = path_join cap (basePath (script job)) (USER_AND_GROUP_FILENAME cap @ ''.csv'')
      in (common_mergeCsvFilesAsync cap filepath1 filepath2 filepath3 (fst r),
          snd r @ [Common_mergeCsvFilesAsync filepath1 filepath2 filepath3]))"

text \<open>Lines 425-431.\<close>

fun copyLoop :: "'w Collaborators \<Rightarrow> Task list \<Rightarrow> 'w run \<Rightarrow> 'w run" where
  "copyLoop cap [] r = r"
| "copyLoop cap (task # rest) r =
     copyLoop cap rest
       (if fs_existsSync cap (data_csvFilename cap task) (fst r)
        then (fs_copyFileSync cap (data_csvFilename cap task) (data_sourceCsvFilename cap task) (fst r),
              snd r @ [Fs_copyFileSync (data_csvFilename cap task) (data_sourceCsvFilename cap task)])
        else r)"

definition copyCSVFilesToSourceSubDir :: "'w Collaborators \<Rightarrow> MigrationJob \<Rightarrow> 'w run \<Rightarrow> 'w run" where
  "copyCSVFilesToSourceSubDir cap job r = copyLoop cap (tasks job) r"

text \<open>
  Lines 473-484, the inner function \<open>___abortwithPrompt\<close>. Modelled from the spec:
  \<open>Common.abortWithPrompt\<close> itself is not among the files; it is the confirmation prompt
  with a side action, which either returns or throws. The call is one event of the trace;
  the callback it was given saves the report (line 481).
\<close>

definition abortwithPrompt ::
  "'w Collaborators \<Rightarrow> MigrationJob \<Rightarrow> 'w run \<Rightarrow> (thrown + unit) \<times> 'w run" where
  "abortwithPrompt cap job r =
     (let tokens = [String_of_number (length (csvIssues job)), CSV_ISSUES_ERRORS_FILENAME cap];
          ((ranCallback, threw), w1) =
            common_abortWithPrompt cap (promptOnIssuesInCSVFiles (script job)) tokens (fst r);
          r1 = (w1, snd r @ [Common_abortWithPrompt issuesFoundDuringCSVValidation
                               (promptOnIssuesInCSVFiles (script job)) continueTheJobPrompt [] tokens]);
          r2 = (if ranCallback
                then saveCSVFileAsync cap job (CSV_ISSUES_ERRORS_FILENAME cap)
                       (map issueRow (csvIssues job)) r1
                else r1)
      in (if threw then Inl CommandAbortedByUser else Inr (), r2))"

text \<open>Lines 438-441: \<open>this.csvIssues = this.csvIssues.concat(await task.validateCSV())\<close>.\<close>

fun validateLoop ::
  "'w Collaborators \<Rightarrow> Task list \<Rightarrow> ICSVIssues list \<times> 'w run \<Rightarrow> ICSVIssues list \<times> 'w run" where
  "validateLoop cap [] st = st"
| "validateLoop cap (task # rest) (issues, (w, tr)) =
     (let (found, w') = task_validateCSV cap task w
      in validateLoop cap rest (issues @ found, (w', tr @ [Task_validateCSV (ref task) found])))"

text \<open>Lines 451-454: the same with \<open>task.repairCSV(this.cachedCSVContent)\<close>, which works on the cache.\<close>

fun repairLoop ::
  "'w Collaborators \<Rightarrow> Task list \<Rightarrow> ICSVIssues list \<times> CachedCSVContent \<times> 'w run
     \<Rightarrow> ICSVIssues list \<times> CachedCSVContent \<times> 'w run" where
  "repairLoop cap [] st = st"
| "repairLoop cap (task # rest) (issues, cache, (w, tr)) =
     (let ((found, cache'), w') = task_repairCSV cap task cache w
      in repairLoop cap rest (issues @ found, cache', (w', tr @ [Task_repairCSV (ref task) found])))"

text \<open>
  Lines 456-471, after the repair loop: the updated files are saved, then the issues are
  reported. \<open>abortWasPrompted\<close> is the local variable of line 444.
\<close>

definition saveAndReport ::
  "'w Collaborators \<Rightarrow> bool \<Rightarrow> MigrationJob \<Rightarrow> 'w run \<Rightarrow> (thrown + unit) \<times> 'w run" where
  "saveAndReport cap abortWasPrompted job r =
     (let r1 = saveCachedCsvDataFiles cap job r;
          r2 = logger ''infoVerbose'' csvFilesWereUpdated
                 [String_of_number (length (remdups (updatedFilenames (cachedCSVContent job))))] r1
      in if length (csvIssues job) > 0
         then if \<not> abortWasPrompted
              then abortwithPrompt cap job r2
              else (Inr (),
                    logger ''warn'' issuesFoundDuringCSVValidation
                      [String_of_number (length (csvIssues job)), CSV_ISSUES_ERRORS_FILENAME cap]
                      (saveCSVFileAsync cap job (CSV_ISSUES_ERRORS_FILENAME cap)
                         (map issueRow (csvIssues job)) r2))
         else (Inr (), logger ''infoVerbose'' noIssuesFoundDuringCSVValidation [] r2))"

text \<open>
  Lines 433-486. A throw of the first prompt leaves the method at once, with the job as
  the validation loop left it.
\<close>

definition validateAndRepairSourceCSVFiles ::
  "'w Collaborators \<Rightarrow> MigrationJob \<Rightarrow> 'w run \<Rightarrow> (thrown + unit) \<times> MigrationJob \<times> 'w run" where
  "validateAndRepairSourceCSVFiles cap job r =
     (let (issues1, r1) = validateLoop cap (tasks job) (csvIssues job, r);
          job1 = job\<lparr>csvIssues := issues1\<rparr>;
          abortWasPrompted = (length (csvIssues job1) > 0);
          (res, r2) = (if length (csvIssues job1) > 0 then abortwithPrompt cap job1 r1
                       else (Inr (), r1))
      in case res of
           Inl e \<Rightarrow> (Inl e, job1, r2)
         | Inr u \<Rightarrow>
             let (issues2, cache2, r3) =
                   repairLoop cap (tasks job1) (csvIssues job1, cachedCSVContent job1, r2);
                 job2 = job1\<lparr>csvIssues := issues2, cachedCSVContent := cache2\<rparr>;
                 (res2, r4) = saveAndReport cap abortWasPrompted job2 r3
             in (res2, job2, r4))"

text \<open>Lines 150-178.\<close>

definition validateCSVFiles ::
  "'w Collaborators \<Rightarrow> MigrationJob \<Rightarrow> 'w run \<Rightarrow> (thrown + unit) \<times> MigrationJob \<times> 'w run" where
  "validateCSVFiles cap job r =
     (if sourceOrg_media (script job) = File
      then
        let r1 = mergeUserGroupCSVfiles cap job r;
            (job2, r2) = loadCSVValueMappingFileAsync cap job r1;
            r3 = copyCSVFilesToSourceSubDir cap job2 r2
        in if \<not> importCSVFilesAsIs (script job2)
           then
             let r4 = logger ''infoMinimal'' validatingAndFixingSourceCSVFiles [] r3;
                 (res, job5, r5) = validateAndRepairSourceCSVFiles cap job2 r4
             in case res of
                  Inl e \<Rightarrow> (Inl e, job5, r5)
                | Inr u \<Rightarrow>
                    let r6 = logger ''infoVerbose'' validationAndFixingsourceCSVFilesCompleted [] r5
                    in if validateCSVFilesOnly (script job5)
                       then (Inl SuccessExit, job5, r6)
                       else (Inr (), clearCachedCSVData job5, r6)
           else (Inr (), job2, logger ''infoMinimal'' validatingSourceCSVFilesSkipped [] r3)
      else (Inr (), job, r))"

section \<open>Notions used to state and prove the properties\<close>

text \<open>The chain and the query order that \<open>setup\<close> leaves in a job created for a script.\<close>

abbreviation tasksAfterSetup :: "'w Collaborators \<Rightarrow> Script \<Rightarrow> 'w run \<Rightarrow> Task list" where
  "tasksAfterSetup cap scr r \<equiv> tasks (fst (setup_job cap (MigrationJob_new scr) r))"

abbreviation queryTasksAfterSetup :: "'w Collaborators \<Rightarrow> Script \<Rightarrow> 'w run \<Rightarrow> Task list" where
  "queryTasksAfterSetup cap scr r \<equiv> queryTasks (fst (setup_job cap (MigrationJob_new scr) r))"

text \<open>The test of lines 123-124: the tasks that go first in the query order.\<close>

definition retrievesFirst :: "'w Collaborators \<Rightarrow> Task \<Rightarrow> bool" where
  "retrievesFirst cap task = (sourceData_allRecords cap task \<or> isLimitedQuery (scriptObject task))"

text \<open>
  The order property as the specification words it: whenever the object of the task at
  index \<open>p\<close> lists the object of the task at index \<open>q\<close> among its master-detail parents,
  \<open>q\<close> is smaller than \<open>p\<close>.
\<close>

definition masterDetailOrdered :: "Task list \<Rightarrow> bool" where
  "masterDetailOrdered ts =
     (\<forall>p<length ts. \<forall>q<length ts.
        name (scriptObject (ts ! q)) \<in> set (parentMasterDetailObjects (scriptObject (ts ! p)))
          \<longrightarrow> q < p)"

text \<open>
  The test of line 104 on an existing task: the object being added is a lookup parent of
  the task, and the task is neither a master-detail parent of the object nor flagged.
\<close>

definition movesBefore :: "ScriptObject \<Rightarrow> Task \<Rightarrow> bool" where
  "movesBefore objectToAdd existedTask =
     (name objectToAdd \<in> set (parentLookupObjects (scriptObject existedTask))
      \<and> \<not> (name (scriptObject existedTask) \<in> set (parentMasterDetailObjects objectToAdd)
           \<or> isMasterDetailTask existedTask))"

text \<open>One round of the loop of lines 98-113, at index \<open>k\<close>.\<close>

definition scanStep :: "ScriptObject \<Rightarrow> nat \<Rightarrow> Task list \<times> nat \<Rightarrow> Task list \<times> nat" where
  "scanStep x k st =
     (if movesBefore x (fst st ! k) then (fst st, k)
      else if name (scriptObject (fst st ! k)) \<in> set (parentMasterDetailObjects x)
              \<or> isMasterDetailTask (fst st ! k)
      then ((fst st)[k := (fst st ! k)\<lparr>isMasterDetailTask := True\<rparr>], snd st)
      else st)"

text \<open>
  The array into which the new task is spliced, and the index of the splice, for each of
  the four branches of lines 80-118.
\<close>

definition scanned :: "ScriptObject \<Rightarrow> SetupState \<Rightarrow> Task list \<times> nat" where
  "scanned x s =
     (if name x = RECORD_TYPE_SOBJECT_NAME then (chain s, 0)
      else if isReadonlyObject x then (chain s, lowerIndexForReadonlyObjects s)
      else scanExisting (setProcessAll x) (lowerIndexForAnyObjects s) (length (chain s))
             (chain s, length (chain s)))"

text \<open>
  The invariant of the two floors: the record-type tasks are exactly those below
  \<open>lowerIndexForReadonlyObjects\<close>, and the record-type and read-only tasks exactly those
  below \<open>lowerIndexForAnyObjects\<close>.
\<close>

definition regionsOK :: "SetupState \<Rightarrow> bool" where
  "regionsOK s =
     (lowerIndexForReadonlyObjects s \<le> lowerIndexForAnyObjects s
      \<and> lowerIndexForAnyObjects s \<le> length (chain s)
      \<and> (\<forall>j<length (chain s).
            (j < lowerIndexForReadonlyObjects s
               \<longleftrightarrow> name (scriptObject (chain s ! j)) = RECORD_TYPE_SOBJECT_NAME)
            \<and> (j < lowerIndexForAnyObjects s
               \<longleftrightarrow> name (scriptObject (chain s ! j)) = RECORD_TYPE_SOBJECT_NAME
                   \<or> isReadonlyObject (scriptObject (chain s ! j)))))"

abbreviation (input) taskKey :: "Task \<Rightarrow> nat \<times> ScriptObject" where
  "taskKey \<equiv> \<lambda>t. (ref t, scriptObject t)"

text \<open>
  The results of calling an operation on each element of a list, first to last, each call
  on the world that the call before it left; and the world after the last call.
\<close>

fun callEach :: "('t \<Rightarrow> 'w \<Rightarrow> 'a \<times> 'w) \<Rightarrow> 't list \<Rightarrow> 'w \<Rightarrow> 'a list \<times> 'w" where
  "callEach f [] w = ([], w)"
| "callEach f (t # ts) w =
     (let (a, w') = f t w; (as, w'') = callEach f ts w' in (a # as, w''))"

text \<open>
  The reading of the specification for one step of \<open>retrieveRecords\<close>: among the events of
  the step, the \<open>noRecords\<close> message occurs only if no call of \<open>retrieveRecords\<close> of that
  step retrieved records.
\<close>

definition noRecordsOnlyIfNoneRetrieved :: "event list \<Rightarrow> bool" where
  "noRecordsOnlyIfNoneRetrieved evs =
     (Logger ''infoNormal'' noRecords [] \<in> set evs
        \<longrightarrow> \<not> (\<exists>i direction reversed. Task_retrieveRecords i direction reversed True \<in> set evs))"

text \<open>The \<open>noRecords\<close> message of a loop whose calls returned \<open>bs\<close>.\<close>

definition noRecordsMessage :: "bool list \<Rightarrow> event list" where
  "noRecordsMessage bs = (if True \<in> set bs then [] else [Logger ''infoNormal'' noRecords []])"

text \<open>The number of calls of \<open>Common.abortWithPrompt\<close> in a trace.\<close>

fun isPrompt :: "event \<Rightarrow> bool" where
  "isPrompt (Common_abortWithPrompt warnMessage showPrompt promptMessage errorMessage tokens) = True"
| "isPrompt e = False"

definition prompts :: "event list \<Rightarrow> nat" where
  "prompts evs = length (filter isPrompt evs)"

text \<open>
  Lines 153-160 of \<open>validateCSVFiles\<close>: what runs before the validation when the source
  is a file and the files are not imported as they are.
\<close>

definition beforeValidation :: "'w Collaborators \<Rightarrow> MigrationJob \<Rightarrow> 'w run \<Rightarrow> MigrationJob \<times> 'w run" where
  "beforeValidation cap job r =
     (let r1 = mergeUserGroupCSVfiles cap job r;
          (job2, r2) = loadCSVValueMappingFileAsync cap job r1;
          r3 = copyCSVFilesToSourceSubDir cap job2 r2
      in (job2, logger ''infoMinimal'' validatingAndFixingSourceCSVFiles [] r3))"

text \<open>
  Lines 438-441 of \<open>_validateAndRepairSourceCSVFiles\<close>: the job and the run once every task
  has validated its file, before the first prompt.
\<close>

definition afterValidation :: "'w Collaborators \<Rightarrow> MigrationJob \<Rightarrow> 'w run \<Rightarrow> MigrationJob \<times> 'w run" where
  "afterValidation cap job r =
     (job\<lparr>csvIssues := fst (validateLoop cap (tasks job) (csvIssues job, r))\<rparr>,
      snd (validateLoop cap (tasks job) (csvIssues job, r)))"

text \<open>Decimal digits at a fixed width, the least significant last.\<close>

fun fixedDecimal :: "nat \<Rightarrow> nat \<Rightarrow> string" where
  "fixedDecimal 0 n = []"
| "fixedDecimal (Suc w) n = fixedDecimal w (n div 10) @ [''0123456789'' ! (n mod 10)]"

section \<open>Concrete scripts and collaborators\<close>

text \<open>An object with the given name, lookup parents, master-detail parents and read-only flag.\<close>

definition object :: "string \<Rightarrow> string list \<Rightarrow> string list \<Rightarrow> bool \<Rightarrow> ScriptObject" where
  "object n lookups masterDetails readonly =
     \<lparr>name = n, parentLookupObjects = lookups, parentMasterDetailObjects = masterDetails,
      allRecords = False, isSpecialObject = False, isObjectWithoutRelationships = False,
      isReadonlyObject = readonly, isLimitedQuery = False, hasComplexExternalId = False,
      hasAutonumberExternalId = False, processAllSource = False, processAllTarget = False\<rparr>"

definition scriptOf :: "ScriptObject list \<Rightarrow> Script" where
  "scriptOf objs =
     \<lparr>objects = objs, sourceOrg_media = File, importCSVFilesAsIs = False,
      validateCSVFilesOnly = False, promptOnIssuesInCSVFiles = True, basePath = ''base''\<rparr>"

text \<open>
  Collaborators over a world that counts the calls of \<open>retrieveRecords\<close>: nothing is ever
  found, deleted, updated or wrong, but the call number \<open>hit\<close> of \<open>retrieveRecords\<close>
  retrieves records.
\<close>

definition quietCollaborators :: "nat \<Rightarrow> nat Collaborators" where
  "quietCollaborators hit =
     \<lparr>getResourceString = (\<lambda>m. []),
      path_join = (\<lambda>a b. a @ ''/'' @ b),
      CSV_ISSUES_ERRORS_FILENAME = ''CSVIssuesReport.csv'',
      VALUE_MAPPING_CSV_FILENAME = ''ValueMapping.csv'',
      USER_AND_GROUP_FILENAME = ''UserAndGroup'',
      sourceData_allRecords = (\<lambda>task. processAllSource (scriptObject task)),
      data_csvFilename = (\<lambda>task. sObjectName task @ ''.csv''),
      data_sourceCsvFilename = (\<lambda>task. sObjectName task @ ''_source.csv''),
      extIdRecordsMap_sizes = (\<lambda>task w. (0, 0)),
      task_getTotalRecordsCountAsync = (\<lambda>task w. w),
      task_deleteOldTargetRecords = (\<lambda>task w. (False, w)),
      task_retrieveRecords = (\<lambda>task direction reversed w. (w = hit, w + 1)),
      task_updateRecords = (\<lambda>task direction w. (0, w)),
      task_validateCSV = (\<lambda>task w. ([], w)),
      task_repairCSV = (\<lambda>task cache w. (([], cache), w)),
      common_abortWithPrompt = (\<lambda>showPrompt tokens w. ((False, False), w)),
      common_writeCsvFileAsync = (\<lambda>filePath data w. w),
      common_readCsvFileAsync = (\<lambda>filePath w. ([], w)),
      common_mergeCsvFilesAsync = (\<lambda>f1 f2 f3 w. w),
      fs_existsSync = (\<lambda>filePath w. False),
      fs_copyFileSync = (\<lambda>f1 f2 w. w)\<rparr>"

text \<open>A job of one task, and a job of a master-detail parent and its child, both set up.\<close>

definition accountTask :: Task where
  "accountTask = newTask 0 (setProcessAll (object ''Account'' [] [] False))"

definition oneTaskJob :: MigrationJob where
  "oneTaskJob =
     fst (setup_job (quietCollaborators 0)
            (MigrationJob_new (scriptOf [object ''Account'' [] [] False])) (0, []))"


text \<open>An issue as a task reports it.\<close>

definition missingColumn :: ICSVIssues where
  "missingColumn =
     \<lparr>Date = ''2020-01-01'', Child_value = [], Child_sObject = ''Account'', Child_field = ''Name'',
      Parent_value = [], Parent_sObject = [], Parent_field = [], Error = ''missing column''\<rparr>"

section \<open>Properties of the scan (lines 98-113)\<close>

lemma setProcessAll_fields [simp]:
  "name (setProcessAll x) = name x"
  "parentLookupObjects (setProcessAll x) = parentLookupObjects x"
  "parentMasterDetailObjects (setProcessAll x) = parentMasterDetailObjects x"
  "isReadonlyObject (setProcessAll x) = isReadonlyObject x"
  "isLimitedQuery (setProcessAll x) = isLimitedQuery x"
  by (simp_all add: setProcessAll_def)

lemma scan_Suc:
  "scanExisting x lo (Suc k) (ts, idx) =
     (if k < lo then (ts, idx) else scanExisting x lo k (scanStep x k (ts, idx)))"
  by (simp add: scanStep_def movesBefore_def Let_def)

declare scanExisting.simps(2) [simp del]

lemma scanStep_length [simp]: "length (fst (scanStep x k st)) = length (fst st)"
  by (simp add: scanStep_def)

lemma scanStep_nth: "j \<noteq> k \<Longrightarrow> fst (scanStep x k st) ! j = fst st ! j"
  by (simp add: scanStep_def)

lemma scanStep_ref: "j < length (fst st) \<Longrightarrow> ref (fst (scanStep x k st) ! j) = ref (fst st ! j)"
  by (cases "j = k") (simp_all add: scanStep_def)

lemma scanStep_scriptObject:
  "j < length (fst st) \<Longrightarrow> scriptObject (fst (scanStep x k st) ! j) = scriptObject (fst st ! j)"
  by (cases "j = k") (simp_all add: scanStep_def)

lemma scanStep_snd: "snd (scanStep x k st) = (if movesBefore x (fst st ! k) then k else snd st)"
  by (simp add: scanStep_def)

lemma scan_length:
  "length (fst (scanExisting x lo k st)) = length (fst st)"
proof (induction k arbitrary: st)
  case 0
  show ?case by simp
next
  case (Suc k)
  obtain ts idx where st: "st = (ts, idx)" by (cases st)
  show ?case unfolding st scan_Suc using Suc.IH[of "scanStep x k (ts, idx)"] by simp
qed

lemma scan_ref:
  "j < length (fst st) \<Longrightarrow> ref (fst (scanExisting x lo k st) ! j) = ref (fst st ! j)"
proof (induction k arbitrary: st)
  case 0
  show ?case by simp
next
  case (Suc k)
  obtain ts idx where st: "st = (ts, idx)" by (cases st)
  show ?case unfolding st scan_Suc
    using Suc.IH[of "scanStep x k (ts, idx)"] Suc.prems scanStep_ref[of j "(ts, idx)" x k]
    by (simp add: st)
qed

lemma scan_scriptObject:
  "j < length (fst st) \<Longrightarrow>
     scriptObject (fst (scanExisting x lo k st) ! j) = scriptObject (fst st ! j)"
proof (induction k arbitrary: st)
  case 0
  show ?case by simp
next
  case (Suc k)
  obtain ts idx where st: "st = (ts, idx)" by (cases st)
  show ?case unfolding st scan_Suc
    using Suc.IH[of "scanStep x k (ts, idx)"] Suc.prems scanStep_scriptObject[of j "(ts, idx)" x k]
    by (simp add: st)
qed

lemma scan_index:
  "snd (scanExisting x lo k st) = snd st
   \<or> (lo \<le> snd (scanExisting x lo k st) \<and> snd (scanExisting x lo k st) < k)"
proof (induction k arbitrary: st)
  case 0
  show ?case by simp
next
  case (Suc k)
  obtain ts idx where st: "st = (ts, idx)" by (cases st)
  show ?case
    using Suc.IH[of "scanStep x k st"] scanStep_snd[of x k st]
    by (auto simp add: st scan_Suc split: if_splits)
qed

section \<open>One object added to the chain\<close>

lemma length_splice0 [simp]: "length (splice0 k y xs) = Suc (length xs)"
  by (simp add: splice0_def)

lemma nth_splice0:
  "k \<le> length xs \<Longrightarrow>
     splice0 k y xs ! j = (if j < k then xs ! j else if j = k then y else xs ! (j - 1))"
  by (auto simp add: splice0_def nth_append nth_Cons' min_def)

lemma mset_splice0 [simp]: "mset (splice0 k y xs) = add_mset y (mset xs)"
proof -
  have "mset (take k xs) + mset (drop k xs) = mset xs"
    by (metis append_take_drop_id mset_append)
  then show ?thesis by (simp add: splice0_def)
qed

lemma set_splice0 [simp]: "set (splice0 k y xs) = insert y (set xs)"
proof -
  have "set (take k xs) \<union> set (drop k xs) = set xs"
    by (metis append_take_drop_id set_append)
  then show ?thesis by (auto simp add: splice0_def)
qed

lemma addObject_chain:
  "chain (addObject (i, x) s) =
     splice0 (snd (scanned x s)) (newTask i (setProcessAll x)) (fst (scanned x s))"
  by (auto simp add: addObject_def scanned_def Let_def splice0_def split: prod.splits)

lemma addObject_lowAny:
  "lowerIndexForAnyObjects (addObject (i, x) s) =
     (if name x = RECORD_TYPE_SOBJECT_NAME \<or> isReadonlyObject x
      then lowerIndexForAnyObjects s + 1 else lowerIndexForAnyObjects s)"
  by (auto simp add: addObject_def Let_def split: prod.splits)

lemma addObject_lowRO:
  "lowerIndexForReadonlyObjects (addObject (i, x) s) =
     (if name x = RECORD_TYPE_SOBJECT_NAME
      then lowerIndexForReadonlyObjects s + 1 else lowerIndexForReadonlyObjects s)"
  by (auto simp add: addObject_def Let_def split: prod.splits)

lemma scanned_length [simp]: "length (fst (scanned x s)) = length (chain s)"
  by (simp add: scanned_def scan_length)

lemma scanned_ref:
  "j < length (chain s) \<Longrightarrow> ref (fst (scanned x s) ! j) = ref (chain s ! j)"
  by (simp add: scanned_def scan_ref)

lemma scanned_scriptObject:
  "j < length (chain s) \<Longrightarrow> scriptObject (fst (scanned x s) ! j) = scriptObject (chain s ! j)"
  by (simp add: scanned_def scan_scriptObject)

lemma scanned_ordinary_index:
  assumes "name x \<noteq> RECORD_TYPE_SOBJECT_NAME" "\<not> isReadonlyObject x"
    and "lowerIndexForAnyObjects s \<le> length (chain s)"
  shows "lowerIndexForAnyObjects s \<le> snd (scanned x s) \<and> snd (scanned x s) \<le> length (chain s)"
  using scan_index[of "setProcessAll x" "lowerIndexForAnyObjects s" "length (chain s)"
      "(chain s, length (chain s))"] assms
  by (auto simp add: scanned_def)

section \<open>Invariants of the chain\<close>

lemma nextRef_Nil [simp]: "nextRef [] = 0"
  by (simp add: nextRef_def)

lemma buildChain_Nil [simp]:
  "buildChain [] ts0 = \<lparr>chain = ts0, lowerIndexForAnyObjects = 0, lowerIndexForReadonlyObjects = 0\<rparr>"
  by (simp add: buildChain_def)

lemma buildChain_snoc:
  "buildChain (xs @ [x]) [] = addObject (length xs, x) (buildChain xs [])"
  by (simp add: buildChain_def enumerate_append_eq)

lemma scanned_index_le:
  "regionsOK s \<Longrightarrow> snd (scanned x s) \<le> length (chain s)"
  using scanned_ordinary_index[of x s]
  by (auto simp add: regionsOK_def scanned_def)

lemma newTask_fields [simp]:
  "ref (newTask i x) = i" "scriptObject (newTask i x) = x" "isMasterDetailTask (newTask i x) = False"
  by (simp_all add: newTask_def)

lemma addObject_scriptObject:
  assumes "regionsOK s" "j \<le> length (chain s)"
  shows "scriptObject (chain (addObject (i, x) s) ! j) =
     (if j < snd (scanned x s) then scriptObject (chain s ! j)
      else if j = snd (scanned x s) then setProcessAll x
      else scriptObject (chain s ! (j - 1)))"
  using assms scanned_index_le[of s x]
  by (auto simp add: addObject_chain nth_splice0 scanned_scriptObject)

lemma addObject_ref:
  assumes "regionsOK s" "j \<le> length (chain s)"
  shows "ref (chain (addObject (i, x) s) ! j) =
     (if j < snd (scanned x s) then ref (chain s ! j)
      else if j = snd (scanned x s) then i
      else ref (chain s ! (j - 1)))"
  using assms scanned_index_le[of s x]
  by (auto simp add: addObject_chain nth_splice0 scanned_ref)

lemma addObject_length [simp]: "length (chain (addObject (i, x) s)) = Suc (length (chain s))"
  by (simp add: addObject_chain)

lemma map_splice0: "map f (splice0 k y xs) = splice0 k (f y) (map f xs)"
  by (simp add: splice0_def take_map drop_map)

lemma scanned_map_scriptObject:
  "map scriptObject (fst (scanned x s)) = map scriptObject (chain s)"
  by (rule nth_equalityI) (simp_all add: scanned_scriptObject)

lemma region_insert:
  assumes reg: "\<And>j. j < length xs \<Longrightarrow> (j < a) = P (xs ! j)"
    and k: "k \<le> length xs"
    and kind: "(P y \<and> k \<le> a \<and> a' = a + 1) \<or> (\<not> P y \<and> a \<le> k \<and> a' = a)"
    and j: "j < Suc (length xs)"
  shows "(j < a') = P (splice0 k y xs ! j)"
proof -
  consider (before) "j < k" | (at) "j = k" | (after) "k < j" by linarith
  then show ?thesis
  proof cases
    case before
    with k have "j < length xs" by simp
    from reg[OF this] before k kind show ?thesis by (auto simp add: nth_splice0)
  next
    case at
    with k kind show ?thesis by (auto simp add: nth_splice0)
  next
    case after
    with j have "j - 1 < length xs" by simp
    from reg[OF this] after k kind show ?thesis by (auto simp add: nth_splice0)
  qed
qed

lemma regionsOK_addObject:
  assumes ok: "regionsOK s"
  shows "regionsOK (addObject (i, x) s)"
proof -
  let ?k = "snd (scanned x s)"
  let ?xs = "map scriptObject (chain s)"
  let ?s' = "addObject (i, x) s"
  let ?RT = "\<lambda>x. name x = RECORD_TYPE_SOBJECT_NAME"
  let ?NO = "\<lambda>x. name x = RECORD_TYPE_SOBJECT_NAME \<or> isReadonlyObject x"
  have kle: "?k \<le> length ?xs" using ok by (simp add: scanned_index_le)
  have xs': "map scriptObject (chain ?s') = splice0 ?k (setProcessAll x) ?xs"
    by (simp add: addObject_chain map_splice0 scanned_map_scriptObject)
  have les: "lowerIndexForReadonlyObjects s \<le> lowerIndexForAnyObjects s"
    "lowerIndexForAnyObjects s \<le> length (chain s)"
    using ok by (simp_all add: regionsOK_def)
  have r1: "\<And>j. j < length ?xs \<Longrightarrow> (j < lowerIndexForReadonlyObjects s) = ?RT (?xs ! j)"
    using ok by (simp add: regionsOK_def)
  have r2: "\<And>j. j < length ?xs \<Longrightarrow> (j < lowerIndexForAnyObjects s) = ?NO (?xs ! j)"
    using ok by (simp add: regionsOK_def)
  have kind1: "(?RT (setProcessAll x) \<and> ?k \<le> lowerIndexForReadonlyObjects s
                 \<and> lowerIndexForReadonlyObjects ?s' = lowerIndexForReadonlyObjects s + 1)
               \<or> (\<not> ?RT (setProcessAll x) \<and> lowerIndexForReadonlyObjects s \<le> ?k
                 \<and> lowerIndexForReadonlyObjects ?s' = lowerIndexForReadonlyObjects s)"
    using scanned_ordinary_index[of x s] les
    by (auto simp add: addObject_lowRO scanned_def)
  have kind2: "(?NO (setProcessAll x) \<and> ?k \<le> lowerIndexForAnyObjects s
                 \<and> lowerIndexForAnyObjects ?s' = lowerIndexForAnyObjects s + 1)
               \<or> (\<not> ?NO (setProcessAll x) \<and> lowerIndexForAnyObjects s \<le> ?k
                 \<and> lowerIndexForAnyObjects ?s' = lowerIndexForAnyObjects s)"
    using scanned_ordinary_index[of x s] les
    by (auto simp add: addObject_lowAny scanned_def)
  have n1: "(j < lowerIndexForReadonlyObjects ?s') = ?RT (scriptObject (chain ?s' ! j))"
    if "j < length (chain ?s')" for j
  proof -
    from that have j: "j < Suc (length ?xs)" by simp
    have "(j < lowerIndexForReadonlyObjects ?s') = ?RT (splice0 ?k (setProcessAll x) ?xs ! j)"
      using r1 kle kind1 j by (rule region_insert)
    also have "splice0 ?k (setProcessAll x) ?xs ! j = scriptObject (chain ?s' ! j)"
      using that by (simp add: xs'[symmetric])
    finally show ?thesis .
  qed
  have n2: "(j < lowerIndexForAnyObjects ?s') = ?NO (scriptObject (chain ?s' ! j))"
    if "j < length (chain ?s')" for j
  proof -
    from that have j: "j < Suc (length ?xs)" by simp
    have "(j < lowerIndexForAnyObjects ?s') = ?NO (splice0 ?k (setProcessAll x) ?xs ! j)"
      using r2 kle kind2 j by (rule region_insert)
    also have "splice0 ?k (setProcessAll x) ?xs ! j = scriptObject (chain ?s' ! j)"
      using that by (simp add: xs'[symmetric])
    finally show ?thesis .
  qed
  have "lowerIndexForReadonlyObjects ?s' \<le> lowerIndexForAnyObjects ?s'"
    "lowerIndexForAnyObjects ?s' \<le> length (chain ?s')"
    using les by (auto simp add: addObject_lowAny addObject_lowRO)
  with n1 n2 show ?thesis unfolding regionsOK_def by blast
qed

lemma regionsOK_buildChain: "regionsOK (buildChain objs [])"
proof (induction objs rule: rev_induct)
  case Nil
  show ?case by (simp add: regionsOK_def)
next
  case (snoc x xs)
  then show ?case by (simp add: buildChain_snoc regionsOK_addObject)
qed

lemma scanned_map_key: "map taskKey (fst (scanned x s)) = map taskKey (chain s)"
  by (rule nth_equalityI) (simp_all add: scanned_scriptObject scanned_ref)

lemma keys_addObject:
  "mset (map taskKey (chain (addObject (i, x) s))) =
     add_mset (i, setProcessAll x) (mset (map taskKey (chain s)))"
  by (simp add: addObject_chain map_splice0 scanned_map_key)

lemma keys_buildChain:
  "mset (map taskKey (chain (buildChain objs []))) = mset (enumerate 0 (map setProcessAll objs))"
proof (induction objs rule: rev_induct)
  case Nil
  show ?case by simp
next
  case (snoc x xs)
  then show ?case
    using keys_addObject[of "length xs" x "buildChain xs []"]
    by (simp add: buildChain_snoc enumerate_append_eq)
qed

lemma length_buildChain: "length (chain (buildChain objs [])) = length objs"
  by (induction objs rule: rev_induct) (simp_all add: buildChain_snoc)

lemma refs_buildChain: "mset (map ref (chain (buildChain objs []))) = mset [0..<length objs]"
proof -
  have "mset (map fst (map taskKey (chain (buildChain objs [])))) =
        mset (map fst (enumerate 0 (map setProcessAll objs)))"
    using keys_buildChain[of objs] by (metis mset_map)
  then show ?thesis by (simp add: comp_def del: mset_map)
qed

lemma distinct_refs_buildChain: "distinct (map ref (chain (buildChain objs [])))"
proof -
  have "distinct [0..<length objs]" by simp
  then show ?thesis
    using refs_buildChain[of objs] by (metis mset_eq_imp_distinct_iff)
qed

lemma task_of_buildChain:
  assumes "t \<in> set (chain (buildChain objs []))"
  shows "ref t < length objs \<and> scriptObject t = setProcessAll (objs ! ref t)"
proof -
  from assms have "taskKey t \<in> set (map taskKey (chain (buildChain objs [])))" by simp
  then have "taskKey t \<in> set (enumerate 0 (map setProcessAll objs))"
    using keys_buildChain[of objs] by (metis mset_eq_setD)
  then show ?thesis by (auto simp add: in_set_enumerate_eq)
qed

section \<open>Where a task ends up\<close>

lemma scanned_index_floor:
  assumes "regionsOK s" "name x \<noteq> RECORD_TYPE_SOBJECT_NAME"
  shows "lowerIndexForReadonlyObjects s \<le> snd (scanned x s)"
  using assms scanned_ordinary_index[of x s]
  by (auto simp add: scanned_def regionsOK_def)

lemma last_identity_first:
  "i < length objs \<Longrightarrow> name (objs ! i) = RECORD_TYPE_SOBJECT_NAME \<Longrightarrow>
   (\<And>j. i < j \<Longrightarrow> j < length objs \<Longrightarrow> name (objs ! j) \<noteq> RECORD_TYPE_SOBJECT_NAME) \<Longrightarrow>
   ref (chain (buildChain objs []) ! 0) = i"
proof (induction objs arbitrary: i rule: rev_induct)
  case Nil
  then show ?case by simp
next
  case (snoc x xs)
  let ?s = "buildChain xs []"
  have ok: "regionsOK ?s" by (rule regionsOK_buildChain)
  show ?case
  proof (cases "name x = RECORD_TYPE_SOBJECT_NAME")
    case True
    have "i = length xs"
    proof (rule ccontr)
      assume "i \<noteq> length xs"
      with snoc.prems(1) have "i < length xs" by simp
      from snoc.prems(3)[of "length xs"] this True show False by simp
    qed
    moreover from True have "snd (scanned x ?s) = 0" by (simp add: scanned_def)
    ultimately show ?thesis using ok by (simp add: buildChain_snoc addObject_ref)
  next
    case False
    with snoc.prems(2) have "i \<noteq> length xs" by auto
    with snoc.prems(1) have i: "i < length xs" by simp
    have "ref (chain ?s ! 0) = i"
    proof (rule snoc.IH[OF i])
      from snoc.prems(2) i show "name (xs ! i) = RECORD_TYPE_SOBJECT_NAME"
        by (simp add: nth_append)
      fix j assume "i < j" "j < length xs"
      with snoc.prems(3)[of j] show "name (xs ! j) \<noteq> RECORD_TYPE_SOBJECT_NAME"
        by (simp add: nth_append)
    qed
    moreover from i have ne: "0 < length (chain ?s)" by (auto simp add: length_buildChain)
    ultimately have "scriptObject (chain ?s ! 0) = setProcessAll (xs ! i)"
      using task_of_buildChain[of "chain ?s ! 0" xs] by simp
    with snoc.prems(2) i have "name (scriptObject (chain ?s ! 0)) = RECORD_TYPE_SOBJECT_NAME"
      by (simp add: nth_append)
    with ok ne have "0 < lowerIndexForReadonlyObjects ?s" by (simp add: regionsOK_def)
    with scanned_index_floor[OF ok False] have "0 < snd (scanned x ?s)" by simp
    with ok \<open>ref (chain ?s ! 0) = i\<close> show ?thesis
      by (simp add: buildChain_snoc addObject_ref)
  qed
qed

lemma regions_of_buildChain:
  assumes "p < length (chain (buildChain objs []))" "q < length (chain (buildChain objs []))"
    and "name (scriptObject (chain (buildChain objs []) ! q)) \<noteq> RECORD_TYPE_SOBJECT_NAME"
    and "isReadonlyObject (scriptObject (chain (buildChain objs []) ! q))"
  shows "(name (scriptObject (chain (buildChain objs []) ! p)) = RECORD_TYPE_SOBJECT_NAME \<longrightarrow> p < q)
       \<and> (name (scriptObject (chain (buildChain objs []) ! p)) \<noteq> RECORD_TYPE_SOBJECT_NAME
          \<and> \<not> isReadonlyObject (scriptObject (chain (buildChain objs []) ! p)) \<longrightarrow> q < p)"
proof -
  let ?s = "buildChain objs []"
  have ok: "regionsOK ?s" by (rule regionsOK_buildChain)
  from ok assms(1) have p:
    "(p < lowerIndexForReadonlyObjects ?s) = (name (scriptObject (chain ?s ! p)) = RECORD_TYPE_SOBJECT_NAME)"
    "(p < lowerIndexForAnyObjects ?s) = (name (scriptObject (chain ?s ! p)) = RECORD_TYPE_SOBJECT_NAME
       \<or> isReadonlyObject (scriptObject (chain ?s ! p)))"
    by (simp_all add: regionsOK_def)
  from ok assms(2) have q:
    "(q < lowerIndexForReadonlyObjects ?s) = (name (scriptObject (chain ?s ! q)) = RECORD_TYPE_SOBJECT_NAME)"
    "(q < lowerIndexForAnyObjects ?s) = (name (scriptObject (chain ?s ! q)) = RECORD_TYPE_SOBJECT_NAME
       \<or> isReadonlyObject (scriptObject (chain ?s ! q)))"
    by (simp_all add: regionsOK_def)
  from p q assms(3,4) show ?thesis by auto
qed

section \<open>The second pass over the tasks (lines 121-132)\<close>

lemma indexOf_absent: "(indexOf q t < 0) = (ref t \<notin> ref ` set q)"
  by (induction q) (auto simp add: Let_def)

lemma fold_push_filter:
  "fold (\<lambda>task q. if P task then q @ [task] else q) ts q0 = q0 @ filter P ts"
  by (induction ts arbitrary: q0) simp_all

lemma pushRemaining_filter:
  "distinct (map ref ts) \<Longrightarrow>
     pushRemaining ts q = q @ filter (\<lambda>t. ref t \<notin> ref ` set q) ts"
proof (induction ts arbitrary: q)
  case Nil
  show ?case by (simp add: pushRemaining_def)
next
  case (Cons t rest)
  from Cons.prems have d: "distinct (map ref rest)" and new: "ref t \<notin> ref ` set rest" by simp_all
  have step: "pushRemaining (t # rest) q =
      pushRemaining rest (if ref t \<notin> ref ` set q then q @ [t] else q)"
    by (simp add: pushRemaining_def indexOf_absent)
  show ?case
  proof (cases "ref t \<in> ref ` set q")
    case True
    with step Cons.IH[OF d, of q] show ?thesis by simp
  next
    case False
    have "filter (\<lambda>u. ref u \<notin> ref ` set (q @ [t])) rest = filter (\<lambda>u. ref u \<notin> ref ` set q) rest"
    proof (intro filter_cong refl)
      fix u assume "u \<in> set rest"
      with new have "ref u \<noteq> ref t" by (metis imageI)
      then show "(ref u \<notin> ref ` set (q @ [t])) = (ref u \<notin> ref ` set q)" by auto
    qed
    with False step Cons.IH[OF d, of "q @ [t]"] show ?thesis by simp
  qed
qed

lemma queryOrder_partition:
  assumes d: "distinct (map ref ts)"
  shows "pushRemaining ts (fold (\<lambda>task q. if P task then q @ [task] else q) ts []) =
     filter P ts @ filter (\<lambda>t. \<not> P t) ts"
proof -
  from d have inj: "inj_on ref (set ts)" by (simp add: distinct_map)
  have "filter (\<lambda>t. ref t \<notin> ref ` set (filter P ts)) ts = filter (\<lambda>t. \<not> P t) ts"
  proof (intro filter_cong refl)
    fix t assume t: "t \<in> set ts"
    have "(ref t \<in> ref ` set (filter P ts)) = P t"
    proof
      assume "ref t \<in> ref ` set (filter P ts)"
      then obtain u where u: "u \<in> set ts" "P u" "ref u = ref t" by auto
      with inj t have "u = t" by (auto dest: inj_onD)
      with u show "P t" by simp
    next
      assume "P t"
      with t show "ref t \<in> ref ` set (filter P ts)" by auto
    qed
    then show "(ref t \<notin> ref ` set (filter P ts)) = (\<not> P t)" by simp
  qed
  with pushRemaining_filter[OF d, of "filter P ts"] show ?thesis
    by (simp add: fold_push_filter)
qed

lemma partition_perm: "mset (filter P ts @ filter (\<lambda>t. \<not> P t) ts) = mset ts"
  by simp

lemma partition_distinct: "distinct ts \<Longrightarrow> distinct (filter P ts @ filter (\<lambda>t. \<not> P t) ts)"
  by auto

section \<open>The task chain and the query order after setup\<close>

lemma tasks_setup_job:
  "tasksAfterSetup cap scr r = chain (buildChain (objects scr) [])"
  by (simp add: setup_job_def MigrationJob_new_def Let_def)

lemma queryTasks_setup_job:
  "queryTasksAfterSetup cap scr r =
     pushRemaining (chain (buildChain (objects scr) []))
       (pushUnrestricted cap (chain (buildChain (objects scr) [])) [])"
  by (simp add: setup_job_def MigrationJob_new_def Let_def)

lemma objects_setup_job:
  "objects (script (fst (setup_job cap (MigrationJob_new scr) r))) = map setProcessAll (objects scr)"
  by (simp add: setup_job_def MigrationJob_new_def Let_def)

lemmas chain_eval =
  buildChain_def addObject_def object_def scriptOf_def setProcessAll_def newTask_def splice0_def
  RECORD_TYPE_SOBJECT_NAME_def scanExisting.simps(2) Let_def

text \<open>
  C10. For every list of objects, \<open>setup\<close> on a fresh job leaves exactly one task per
  object: the tasks are as many as the objects, and the pairs of a task's identity (the
  position of its object in the list) and its object are, as a multiset, the objects of
  the script paired with their positions. Nothing is dropped and nothing is duplicated.
  The objects are those of the script as \<open>setup\<close> leaves them, with their process-all
  switches set.
\<close>

theorem setup_one_task_per_object:
  "length (tasksAfterSetup cap scr r) = length (objects scr)
   \<and> mset (map (\<lambda>t. (ref t, scriptObject t)) (tasksAfterSetup cap scr r))
       = mset (enumerate 0 (objects (script (fst (setup_job cap (MigrationJob_new scr) r)))))
   \<and> objects (script (fst (setup_job cap (MigrationJob_new scr) r)))
       = map setProcessAll (objects scr)"
  by (simp only: tasks_setup_job objects_setup_job length_buildChain keys_buildChain simp_thms)

theorem setup_one_task_per_object_witness:
  "length (tasksAfterSetup (quietCollaborators 0)
     (scriptOf [object ''B'' [''A''] [''A''] False, object ''X'' [''B''] [''B''] False,
                object ''A'' [] [] False]) (0, [])) = 3"
  using setup_one_task_per_object[of "quietCollaborators 0"
      "scriptOf [object ''B'' [''A''] [''A''] False, object ''X'' [''B''] [''B''] False,
                 object ''A'' [] [] False]" "(0, [])"]
  by (simp add: scriptOf_def)

text \<open>
  C3. After \<open>setup\<close> on a fresh job, \<open>queryTasks\<close> is the tasks that satisfy the test of
  lines 123-124 (unrestricted source retrieval, or a limited query), in their order in
  \<open>tasks\<close>, followed by all the other tasks, in their order in \<open>tasks\<close>. It holds every task
  of \<open>tasks\<close> exactly once and nothing else.
\<close>

theorem setup_queryTasks_order:
  "queryTasksAfterSetup cap scr r
     = filter (retrievesFirst cap) (tasksAfterSetup cap scr r)
       @ filter (\<lambda>t. \<not> retrievesFirst cap t) (tasksAfterSetup cap scr r)
   \<and> mset (queryTasksAfterSetup cap scr r) = mset (tasksAfterSetup cap scr r)
   \<and> distinct (queryTasksAfterSetup cap scr r)"
proof -
  let ?ts = "chain (buildChain (objects scr) [])"
  have d: "distinct (map ref ?ts)" by (rule distinct_refs_buildChain)
  then have d': "distinct ?ts" by (simp add: distinct_map)
  have "pushUnrestricted cap ?ts [] =
      fold (\<lambda>task q. if retrievesFirst cap task then q @ [task] else q) ?ts []"
    by (simp add: pushUnrestricted_def retrievesFirst_def)
  with queryOrder_partition[OF d, of "retrievesFirst cap"]
  have q: "queryTasksAfterSetup cap scr r
      = filter (retrievesFirst cap) ?ts @ filter (\<lambda>t. \<not> retrievesFirst cap t) ?ts"
    by (simp add: queryTasks_setup_job)
  moreover have "mset (filter (retrievesFirst cap) ?ts @ filter (\<lambda>t. \<not> retrievesFirst cap t) ?ts)
      = mset ?ts" by (rule partition_perm)
  moreover have "distinct (filter (retrievesFirst cap) ?ts @ filter (\<lambda>t. \<not> retrievesFirst cap t) ?ts)"
    using d' by (rule partition_distinct)
  ultimately show ?thesis by (simp only: tasks_setup_job simp_thms)
qed

theorem setup_queryTasks_order_witness:
  "map sObjectName (tasksAfterSetup (quietCollaborators 0)
     (scriptOf [object ''A'' [] [] False, (object ''B'' [] [] False)\<lparr>isLimitedQuery := True\<rparr>])
     (0, [])) = [''A'', ''B'']
   \<and> map sObjectName (queryTasksAfterSetup (quietCollaborators 0)
     (scriptOf [object ''A'' [] [] False, (object ''B'' [] [] False)\<lparr>isLimitedQuery := True\<rparr>])
     (0, [])) = [''B'', ''A'']"
  using setup_queryTasks_order[of "quietCollaborators 0"
      "scriptOf [object ''A'' [] [] False, (object ''B'' [] [] False)\<lparr>isLimitedQuery := True\<rparr>]"
      "(0, [])"]
  by (simp add: tasks_setup_job chain_eval retrievesFirst_def quietCollaborators_def
      sObjectName_def)

text \<open>
  C4. After \<open>setup\<close> on a fresh job: when the list of objects holds the record-type
  object, its task is at index 0 (should several objects bear the record-type name, the
  one declared last is); and the task of every read-only object that is not the
  record-type object comes after every record-type task and before the task of every
  ordinary object (one that is neither the record-type object nor read-only).
\<close>

theorem setup_identity_first_readonly_next:
  "(\<forall>i<length (objects scr).
      name (objects scr ! i) = RECORD_TYPE_SOBJECT_NAME
      \<and> (\<forall>j<length (objects scr). i < j \<longrightarrow> name (objects scr ! j) \<noteq> RECORD_TYPE_SOBJECT_NAME)
      \<longrightarrow> ref (tasksAfterSetup cap scr r ! 0) = i
          \<and> scriptObject (tasksAfterSetup cap scr r ! 0) = setProcessAll (objects scr ! i))
   \<and> (\<forall>p<length (tasksAfterSetup cap scr r). \<forall>q<length (tasksAfterSetup cap scr r).
        name (scriptObject (tasksAfterSetup cap scr r ! q)) \<noteq> RECORD_TYPE_SOBJECT_NAME
        \<and> isReadonlyObject (scriptObject (tasksAfterSetup cap scr r ! q))
        \<longrightarrow> (name (scriptObject (tasksAfterSetup cap scr r ! p)) = RECORD_TYPE_SOBJECT_NAME
               \<longrightarrow> p < q)
            \<and> (name (scriptObject (tasksAfterSetup cap scr r ! p)) \<noteq> RECORD_TYPE_SOBJECT_NAME
               \<and> \<not> isReadonlyObject (scriptObject (tasksAfterSetup cap scr r ! p))
               \<longrightarrow> q < p))"
proof (intro conjI allI impI)
  let ?ts = "chain (buildChain (objects scr) [])"
  fix i
  assume i: "i < length (objects scr)"
    and rt: "name (objects scr ! i) = RECORD_TYPE_SOBJECT_NAME
      \<and> (\<forall>j<length (objects scr). i < j \<longrightarrow> name (objects scr ! j) \<noteq> RECORD_TYPE_SOBJECT_NAME)"
  from i rt have first: "ref (?ts ! 0) = i" by (intro last_identity_first) auto
  then show "ref (tasksAfterSetup cap scr r ! 0) = i" by (simp only: tasks_setup_job)
  have "length ?ts = length (objects scr)" by (rule length_buildChain)
  with i have "0 < length ?ts" by linarith
  then have "?ts ! 0 \<in> set ?ts" by (rule nth_mem)
  from task_of_buildChain[OF this] first
  show "scriptObject (tasksAfterSetup cap scr r ! 0) = setProcessAll (objects scr ! i)"
    by (simp only: tasks_setup_job)
next
  let ?ts = "chain (buildChain (objects scr) [])"
  fix p q
  assume p: "p < length (tasksAfterSetup cap scr r)" and q: "q < length (tasksAfterSetup cap scr r)"
    and ro: "name (scriptObject (tasksAfterSetup cap scr r ! q)) \<noteq> RECORD_TYPE_SOBJECT_NAME
      \<and> isReadonlyObject (scriptObject (tasksAfterSetup cap scr r ! q))"
  have ts: "tasksAfterSetup cap scr r = ?ts" by (rule tasks_setup_job)
  from p q ro have p': "p < length ?ts" and q': "q < length ?ts"
    and ro1: "name (scriptObject (?ts ! q)) \<noteq> RECORD_TYPE_SOBJECT_NAME"
    and ro2: "isReadonlyObject (scriptObject (?ts ! q))"
    unfolding ts by simp_all
  note both = regions_of_buildChain[OF p' q' ro1 ro2]
  from both show "name (scriptObject (tasksAfterSetup cap scr r ! p)) = RECORD_TYPE_SOBJECT_NAME
      \<Longrightarrow> p < q"
    unfolding ts by blast
  from both show "name (scriptObject (tasksAfterSetup cap scr r ! p)) \<noteq> RECORD_TYPE_SOBJECT_NAME
      \<and> \<not> isReadonlyObject (scriptObject (tasksAfterSetup cap scr r ! p)) \<Longrightarrow> q < p"
    unfolding ts by blast
qed

theorem setup_identity_first_readonly_next_witness:
  "map sObjectName (tasksAfterSetup (quietCollaborators 0)
     (scriptOf [object ''A'' [] [] False, object ''B'' [''A''] [] True,
                object RECORD_TYPE_SOBJECT_NAME [] [] True, object ''C'' [] [] True]) (0, []))
     = [RECORD_TYPE_SOBJECT_NAME, ''C'', ''B'', ''A'']
   \<and> ref (tasksAfterSetup (quietCollaborators 0)
     (scriptOf [object ''A'' [] [] False, object ''B'' [''A''] [] True,
                object RECORD_TYPE_SOBJECT_NAME [] [] True, object ''C'' [] [] True]) (0, []) ! 0) = 2"
proof -
  let ?scr = "scriptOf [object ''A'' [] [] False, object ''B'' [''A''] [] True,
                object RECORD_TYPE_SOBJECT_NAME [] [] True, object ''C'' [] [] True]"
  have names: "map sObjectName (tasksAfterSetup (quietCollaborators 0) ?scr (0, []))
      = [RECORD_TYPE_SOBJECT_NAME, ''C'', ''B'', ''A'']"
    by (simp add: tasks_setup_job chain_eval sObjectName_def)
  have hyp: "(2::nat) < length (objects ?scr)
      \<and> name (objects ?scr ! 2) = RECORD_TYPE_SOBJECT_NAME
      \<and> (\<forall>j<length (objects ?scr). 2 < j \<longrightarrow> name (objects ?scr ! j) \<noteq> RECORD_TYPE_SOBJECT_NAME)"
    by (simp add: scriptOf_def object_def RECORD_TYPE_SOBJECT_NAME_def less_Suc_eq
        numeral_eq_Suc)
  from setup_identity_first_readonly_next[of ?scr "quietCollaborators 0" "(0, [])"] hyp
  have "ref (tasksAfterSetup (quietCollaborators 0) ?scr (0, []) ! 0) = 2" by blast
  with names show ?thesis by simp
qed

section \<open>The master-detail order of the chain\<close>

text \<open>
  The scan does move a parent before its master-detail child when the two are alone:
  \<open>B\<close> is a master-detail child of \<open>A\<close> (and lists \<open>A\<close> among its lookup parents, as every
  master-detail child does), the objects are declared in the order \<open>B\<close>, \<open>A\<close>, and the chain
  is \<open>A\<close>, \<open>B\<close>.
\<close>

lemma declared_B_A_moved:
  "map (\<lambda>t. name (scriptObject t)) (tasksAfterSetup (quietCollaborators 0)
        (scriptOf [object ''B'' [''A''] [''A''] False, object ''A'' [] [] False]) (0, []))
     = [''A'', ''B'']
   \<and> masterDetailOrdered (tasksAfterSetup (quietCollaborators 0)
        (scriptOf [object ''B'' [''A''] [''A''] False, object ''A'' [] [] False]) (0, []))"
  by (simp add: masterDetailOrdered_def tasks_setup_job chain_eval All_less_Suc)

text \<open>
  The first disjunct of line 103 at work: \<open>P\<close> lists \<open>C\<close> among its lookup parents, and \<open>C\<close>
  is a master-detail child of \<open>P\<close>. Declared in the order \<open>P\<close>, \<open>C\<close>, the lookup alone would
  move \<open>C\<close> before \<open>P\<close>; the master-detail test keeps the chain \<open>P\<close>, \<open>C\<close>.
\<close>

lemma declared_P_C_kept:
  "map (\<lambda>t. name (scriptObject t)) (tasksAfterSetup (quietCollaborators 0)
        (scriptOf [object ''P'' [''C''] [] False, object ''C'' [''P''] [''P''] False]) (0, []))
     = [''P'', ''C'']
   \<and> masterDetailOrdered (tasksAfterSetup (quietCollaborators 0)
        (scriptOf [object ''P'' [''C''] [] False, object ''C'' [''P''] [''P''] False]) (0, []))"
  by (simp add: masterDetailOrdered_def tasks_setup_job chain_eval All_less_Suc)

text \<open>
  C1. After \<open>setup\<close>, the task of an object that lists another among its master-detail
  parents is to have a strictly greater index than the task of that parent; the comments
  of lines 57-58 and 105-106 state the same intent. The code does not achieve it on the
  following script: \<open>B\<close> is a master-detail child of \<open>A\<close>, \<open>X\<close> is a master-detail child of
  \<open>B\<close> (each child lists its parent among its lookup parents as well), every object is
  ordinary, no name repeats, the relationships have no cycle, and the objects are declared
  in the order \<open>B\<close>, \<open>X\<close>, \<open>A\<close>. Adding \<open>X\<close> flags the task of \<open>B\<close> as a master-detail task
  (line 109); when \<open>A\<close> is added, the flag makes the value of line 103 true for \<open>B\<close>, so
  that the test of line 104 fails and line 107 does not move \<open>A\<close> before \<open>B\<close>, although
  \<open>A\<close> is a lookup parent of \<open>B\<close> and not a master-detail child of it. The chain stays \<open>B\<close>, \<open>X\<close>, \<open>A\<close>: the child \<open>B\<close> is at
  index 0, its master-detail parent \<open>A\<close> at index 2.
\<close>

theorem setup_master_detail_failing_input:
  "map (\<lambda>t. (name (scriptObject t), parentMasterDetailObjects (scriptObject t)))
       (tasksAfterSetup (quietCollaborators 0)
          (scriptOf [object ''B'' [''A''] [''A''] False, object ''X'' [''B''] [''B''] False,
                     object ''A'' [] [] False]) (0, []))
     = [(''B'', [''A'']), (''X'', [''B'']), (''A'', [])]
   \<and> name (scriptObject (tasksAfterSetup (quietCollaborators 0)
          (scriptOf [object ''B'' [''A''] [''A''] False, object ''X'' [''B''] [''B''] False,
                     object ''A'' [] [] False]) (0, []) ! 2))
     \<in> set (parentMasterDetailObjects (scriptObject (tasksAfterSetup (quietCollaborators 0)
          (scriptOf [object ''B'' [''A''] [''A''] False, object ''X'' [''B''] [''B''] False,
                     object ''A'' [] [] False]) (0, []) ! 0)))"
  by (simp add: tasks_setup_job chain_eval)

text \<open>
  On that script the chain is not in master-detail order, and the flags of its tasks are
  those described above.
\<close>

lemma declared_B_X_A_not_ordered:
  "\<not> masterDetailOrdered (tasksAfterSetup (quietCollaborators 0)
        (scriptOf [object ''B'' [''A''] [''A''] False, object ''X'' [''B''] [''B''] False,
                   object ''A'' [] [] False]) (0, []))"
  by (simp add: masterDetailOrdered_def tasks_setup_job chain_eval All_less_Suc)

lemma declared_B_X_A_flags:
  "map isMasterDetailTask (tasksAfterSetup (quietCollaborators 0)
        (scriptOf [object ''B'' [''A''] [''A''] False, object ''X'' [''B''] [''B''] False,
                   object ''A'' [] [] False]) (0, []))
     = [True, False, False]"
  by (simp add: tasks_setup_job chain_eval)

text \<open>
  The same three objects have a chain in master-detail order, \<open>A\<close>, \<open>B\<close>, \<open>X\<close>, and \<open>setup\<close>
  builds it when they are declared in that order.
\<close>

lemma declared_A_B_X_ordered:
  "map (\<lambda>t. name (scriptObject t)) (tasksAfterSetup (quietCollaborators 0)
        (scriptOf [object ''A'' [] [] False, object ''B'' [''A''] [''A''] False,
                   object ''X'' [''B''] [''B''] False]) (0, []))
     = [''A'', ''B'', ''X'']
   \<and> masterDetailOrdered (tasksAfterSetup (quietCollaborators 0)
        (scriptOf [object ''A'' [] [] False, object ''B'' [''A''] [''A''] False,
                   object ''X'' [''B''] [''B''] False]) (0, []))"
  by (simp add: masterDetailOrdered_def tasks_setup_job chain_eval All_less_Suc)

text \<open>
  The order is lost without any flag as well: \<open>Y\<close> lists \<open>B\<close> among its lookup parents,
  \<open>B\<close> is a master-detail child of \<open>A\<close>, and the objects are declared in the order \<open>Y\<close>,
  \<open>A\<close>, \<open>B\<close>. When \<open>B\<close> is added, line 107 moves it before its lookup child \<open>Y\<close>, and so
  before its master-detail parent \<open>A\<close>, which stands after \<open>Y\<close>: the chain is \<open>B\<close>, \<open>Y\<close>,
  \<open>A\<close>.
\<close>

lemma declared_Y_A_B_not_ordered:
  "map (\<lambda>t. name (scriptObject t)) (tasksAfterSetup (quietCollaborators 0)
        (scriptOf [object ''Y'' [''B''] [] False, object ''A'' [] [] False,
                   object ''B'' [''A''] [''A''] False]) (0, []))
     = [''B'', ''Y'', ''A'']
   \<and> \<not> masterDetailOrdered (tasksAfterSetup (quietCollaborators 0)
        (scriptOf [object ''Y'' [''B''] [] False, object ''A'' [] [] False,
                   object ''B'' [''A''] [''A''] False]) (0, []))"
  by (simp add: masterDetailOrdered_def tasks_setup_job chain_eval All_less_Suc)

section \<open>What the per-task loops do\<close>

lemma length_callEach [simp]: "length (fst (callEach f ts w)) = length ts"
  by (induction ts arbitrary: w) (simp_all add: split_beta Let_def)

lemma callEach_snoc:
  "callEach f (ts @ [t]) w =
     (fst (callEach f ts w) @ [fst (f t (snd (callEach f ts w)))],
      snd (f t (snd (callEach f ts w))))"
  by (induction ts arbitrary: w) (simp_all add: split_beta Let_def)

lemma logger_run [simp]: "logger m msg toks (w, tr) = (w, tr @ [Logger m msg toks])"
  by (simp add: logger_def)

lemma retrieveLoop_run:
  "retrieveLoop cap direction reversed ts (retrieved, (w, tr)) =
     ((True \<in> set (fst (callEach (\<lambda>task. task_retrieveRecords cap task direction reversed) ts w)))
        \<or> retrieved,
      snd (callEach (\<lambda>task. task_retrieveRecords cap task direction reversed) ts w),
      tr @ map2 (\<lambda>task b. Task_retrieveRecords (ref task) direction reversed b) ts
             (fst (callEach (\<lambda>task. task_retrieveRecords cap task direction reversed) ts w)))"
proof (induction ts arbitrary: retrieved w tr)
  case Nil
  show ?case by simp
next
  case (Cons task rest)
  show ?case by (auto simp add: Cons.IH split_beta Let_def)
qed

lemma updateLoop_run:
  "updateLoop cap direction ts (updated, (w, tr)) =
     (updated + sum_list (fst (callEach (\<lambda>task. task_updateRecords cap task direction) ts w)),
      snd (callEach (\<lambda>task. task_updateRecords cap task direction) ts w),
      tr @ map2 (\<lambda>task n. Task_updateRecords (ref task) direction n) ts
             (fst (callEach (\<lambda>task. task_updateRecords cap task direction) ts w)))"
proof (induction ts arbitrary: updated w tr)
  case Nil
  show ?case by simp
next
  case (Cons task rest)
  show ?case by (simp add: Cons.IH split_beta Let_def add.assoc)
qed


lemma summaryLoop_run:
  "summaryLoop cap ts (w, tr) =
     (w, tr @ map (\<lambda>task. Logger ''infoNormal'' queryingTotallyFetched
                   [sObjectName task,
                    String_of_number (fst (extIdRecordsMap_sizes cap task w)) @ ''/''
                      @ String_of_number (snd (extIdRecordsMap_sizes cap task w))]) ts)"
  by (induction ts arbitrary: tr) simp_all

lemma retrievePass_run:
  "retrievePass cap direction reversed ts (w, tr) =
     (snd (callEach (\<lambda>task. task_retrieveRecords cap task direction reversed) ts w),
      tr @ map2 (\<lambda>task b. Task_retrieveRecords (ref task) direction reversed b) ts
             (fst (callEach (\<lambda>task. task_retrieveRecords cap task direction reversed) ts w))
         @ noRecordsMessage
             (fst (callEach (\<lambda>task. task_retrieveRecords cap task direction reversed) ts w)))"
  by (simp add: retrievePass_def retrieveLoop_run noRecordsMessage_def)

lemma oneTaskJob_fields [simp]:
  "tasks oneTaskJob = [accountTask]" "queryTasks oneTaskJob = [accountTask]"
  "csvIssues oneTaskJob = []" "cachedCSVContent oneTaskJob = CachedCSVContent_new"
  "script oneTaskJob = scriptOf [setProcessAll (object ''Account'' [] [] False)]"
  by (simp_all add: oneTaskJob_def setup_job_def MigrationJob_new_def chain_eval pushUnrestricted_def
      pushRemaining_def accountTask_def quietCollaborators_def)

lemma ref_accountTask [simp]: "ref accountTask = 0"
  by (simp add: accountTask_def newTask_def)





lemma updateRecords_step_run:
  "updateRecords_step cap step direction job (w, tr) =
     (let (ns, w') = callEach (\<lambda>task. task_updateRecords cap task direction) (tasks job) w
      in (w',
          tr @ [Logger ''infoMinimal'' newLine [],
                Logger ''headerMinimal'' updatingTarget [getResourceString cap step]]
             @ map2 (\<lambda>task n. Task_updateRecords (ref task) direction n) (tasks job) ns
             @ [if sum_list ns \<noteq> 0
                then Logger ''infoNormal'' updatingTargetCompleted [getResourceString cap step]
                else Logger ''infoNormal'' nothingUpdated []]))"
  by (simp add: updateRecords_step_def updateLoop_run split_beta Let_def)

text \<open>
  C9. \<open>updateRecords\<close> runs two steps. Step 1 logs an empty line and its header, calls the
  update operation of every task of \<open>tasks\<close>, first to last, with the direction
  "forwards", and adds up the counts the calls return; step 2 does the same with the
  direction "backwards", its count starting again at zero. Each step ends with the
  completed message when its own sum is not zero, and the nothing-updated message
  otherwise.
\<close>

theorem updateRecords_two_steps:
  "updateRecords cap job (w, tr) =
     (let (ns1, w1) = callEach (\<lambda>task. task_updateRecords cap task ''forwards'') (tasks job) w;
          (ns2, w2) = callEach (\<lambda>task. task_updateRecords cap task ''backwards'') (tasks job) w1
      in (w2,
          tr @ [Logger ''infoMinimal'' newLine [],
                Logger ''headerMinimal'' updatingTarget [getResourceString cap Step1]]
             @ map2 (\<lambda>task n. Task_updateRecords (ref task) ''forwards'' n) (tasks job) ns1
             @ [if sum_list ns1 \<noteq> 0
                then Logger ''infoNormal'' updatingTargetCompleted [getResourceString cap Step1]
                else Logger ''infoNormal'' nothingUpdated []]
             @ [Logger ''infoMinimal'' newLine [],
                Logger ''headerMinimal'' updatingTarget [getResourceString cap Step2]]
             @ map2 (\<lambda>task n. Task_updateRecords (ref task) ''backwards'' n) (tasks job) ns2
             @ [if sum_list ns2 \<noteq> 0
                then Logger ''infoNormal'' updatingTargetCompleted [getResourceString cap Step2]
                else Logger ''infoNormal'' nothingUpdated []]))"
  by (simp add: updateRecords_def updateRecords_step_run split_beta Let_def)

theorem updateRecords_two_steps_witness:
  "updateRecords
     ((quietCollaborators 0)\<lparr>task_updateRecords :=
         (\<lambda>task direction w. (if direction = ''forwards'' then 3 else 0, w))\<rparr>)
     oneTaskJob (0, []) =
     (0,
      [Logger ''infoMinimal'' newLine [], Logger ''headerMinimal'' updatingTarget [[]],
       Task_updateRecords 0 ''forwards'' 3, Logger ''infoNormal'' updatingTargetCompleted [[]],
       Logger ''infoMinimal'' newLine [], Logger ''headerMinimal'' updatingTarget [[]],
       Task_updateRecords 0 ''backwards'' 0, Logger ''infoNormal'' nothingUpdated []])"
  using updateRecords_two_steps[of
      "(quietCollaborators 0)\<lparr>task_updateRecords :=
         (\<lambda>task direction w. (if direction = ''forwards'' then 3 else 0, w))\<rparr>"
      oneTaskJob 0 "[]"]
  by (simp add: quietCollaborators_def)

text \<open>
  C2, as the specification states it, fails for step 2: the \<open>noRecords\<close> message belongs to
  a pass, not to the step. With one task whose third call of \<open>retrieveRecords\<close> (pass 2 of
  step 2) is the only one to retrieve records, step 2 shows the message after pass 1 and
  after pass 3 although a task of that step retrieved records.
\<close>

theorem retrieveRecords_step_counterexample:
  "\<not> noRecordsOnlyIfNoneRetrieved
       (drop (length (snd (retrieveRecords_step1 (quietCollaborators 2) oneTaskJob (0, []))))
          (snd (retrieveRecords_step2 (quietCollaborators 2) oneTaskJob
                  (retrieveRecords_step1 (quietCollaborators 2) oneTaskJob (0, [])))))"
proof -
  have s1: "retrieveRecords_step1 (quietCollaborators 2) oneTaskJob (0, []) =
      (1, [Logger ''infoMinimal'' newLine [], Logger ''headerMinimal'' retrievingData [[]],
           Task_retrieveRecords 0 ''forwards'' False False, Logger ''infoNormal'' noRecords [],
           Logger ''infoNormal'' retrievingDataCompleted [[]]])"
    by (simp add: retrieveRecords_step1_def retrievePass_run noRecordsMessage_def
        quietCollaborators_def)
  have s2: "snd (retrieveRecords_step2 (quietCollaborators 2) oneTaskJob
        (1, [Logger ''infoMinimal'' newLine [], Logger ''headerMinimal'' retrievingData [[]],
           Task_retrieveRecords 0 ''forwards'' False False, Logger ''infoNormal'' noRecords [],
           Logger ''infoNormal'' retrievingDataCompleted [[]]])) =
      [Logger ''infoMinimal'' newLine [], Logger ''headerMinimal'' retrievingData [[]],
       Task_retrieveRecords 0 ''forwards'' False False, Logger ''infoNormal'' noRecords [],
       Logger ''infoNormal'' retrievingDataCompleted [[]]]
      @ [Logger ''infoMinimal'' newLine [], Logger ''headerMinimal'' retrievingData [[]],
         Logger ''infoNormal'' Pass1 [], Logger ''infoNormal'' separator [],
         Task_retrieveRecords 0 ''backwards'' False False, Logger ''infoNormal'' noRecords [],
         Logger ''infoNormal'' newLine [], Logger ''infoNormal'' Pass2 [],
         Logger ''infoNormal'' separator [],
         Task_retrieveRecords 0 ''backwards'' False True,
         Logger ''infoNormal'' newLine [], Logger ''infoNormal'' Pass3 [],
         Logger ''infoNormal'' separator [],
         Task_retrieveRecords 0 ''forwards'' True False, Logger ''infoNormal'' noRecords []]"
    by (simp add: retrieveRecords_step2_def retrievePass_run noRecordsMessage_def
        quietCollaborators_def)
  show ?thesis
    unfolding s1 snd_conv s2 by (auto simp add: noRecordsOnlyIfNoneRetrieved_def)
qed

text \<open>
  C2, amended. \<open>retrieveRecords\<close> runs five loops over \<open>queryTasks\<close>, each first to last
  and each call on the world the call before it left: step 1 with the direction
  "forwards" and the reversed flag false; step 2 with its three passes, "backwards" and
  false, "backwards" and false again, then "forwards" and true; step 3 with the direction
  "target" and false. After each of the five loops the \<open>noRecords\<close> message is logged
  exactly when no call of that loop returned true. The summary that follows logs one line
  per task of \<open>queryTasks\<close>.
\<close>

theorem retrieveRecords_five_loops:
  "retrieveRecords cap job (w, tr) =
     (let qs = queryTasks job;
          (b1, w1) = callEach (\<lambda>task. task_retrieveRecords cap task ''forwards'' False) qs w;
          (b2, w2) = callEach (\<lambda>task. task_retrieveRecords cap task ''backwards'' False) qs w1;
          (b3, w3) = callEach (\<lambda>task. task_retrieveRecords cap task ''backwards'' False) qs w2;
          (b4, w4) = callEach (\<lambda>task. task_retrieveRecords cap task ''forwards'' True) qs w3;
          (b5, w5) = callEach (\<lambda>task. task_retrieveRecords cap task ''target'' False) qs w4
      in (w5,
          tr @ [Logger ''infoMinimal'' newLine [],
                Logger ''headerMinimal'' retrievingData [getResourceString cap Step1]]
             @ map2 (\<lambda>task b. Task_retrieveRecords (ref task) ''forwards'' False b) qs b1
             @ noRecordsMessage b1
             @ [Logger ''infoNormal'' retrievingDataCompleted [getResourceString cap Step1]]
             @ [Logger ''infoMinimal'' newLine [],
                Logger ''headerMinimal'' retrievingData [getResourceString cap Step2],
                Logger ''infoNormal'' Pass1 [], Logger ''infoNormal'' separator []]
             @ map2 (\<lambda>task b. Task_retrieveRecords (ref task) ''backwards'' False b) qs b2
             @ noRecordsMessage b2
             @ [Logger ''infoNormal'' newLine [], Logger ''infoNormal'' Pass2 [],
                Logger ''infoNormal'' separator []]
             @ map2 (\<lambda>task b. Task_retrieveRecords (ref task) ''backwards'' False b) qs b3
             @ noRecordsMessage b3
             @ [Logger ''infoNormal'' newLine [], Logger ''infoNormal'' Pass3 [],
                Logger ''infoNormal'' separator []]
             @ map2 (\<lambda>task b. Task_retrieveRecords (ref task) ''forwards'' True b) qs b4
             @ noRecordsMessage b4
             @ [Logger ''infoMinimal'' newLine [], Logger ''infoMinimal'' target [],
                Logger ''infoMinimal'' separator []]
             @ map2 (\<lambda>task b. Task_retrieveRecords (ref task) ''target'' False b) qs b5
             @ noRecordsMessage b5
             @ [Logger ''infoNormal'' retrievingDataCompleted [getResourceString cap Step2]]
             @ [Logger ''infoNormal'' newLine [], Logger ''headerNormal'' fetchingSummary []]
             @ map (\<lambda>task. Logger ''infoNormal'' queryingTotallyFetched
                     [sObjectName task,
                      String_of_number (fst (extIdRecordsMap_sizes cap task w5)) @ ''/''
                        @ String_of_number (snd (extIdRecordsMap_sizes cap task w5))]) qs))"
  by (simp add: retrieveRecords_def retrieveRecords_step1_def retrieveRecords_step2_def
      retrieveRecords_step3_def retrievePass_run summaryLoop_run split_beta Let_def)

theorem retrieveRecords_five_loops_witness:
  "snd (retrieveRecords (quietCollaborators 2) oneTaskJob (0, [])) =
     [Logger ''infoMinimal'' newLine [], Logger ''headerMinimal'' retrievingData [[]],
      Task_retrieveRecords 0 ''forwards'' False False, Logger ''infoNormal'' noRecords [],
      Logger ''infoNormal'' retrievingDataCompleted [[]],
      Logger ''infoMinimal'' newLine [], Logger ''headerMinimal'' retrievingData [[]],
      Logger ''infoNormal'' Pass1 [], Logger ''infoNormal'' separator [],
      Task_retrieveRecords 0 ''backwards'' False False, Logger ''infoNormal'' noRecords [],
      Logger ''infoNormal'' newLine [], Logger ''infoNormal'' Pass2 [],
      Logger ''infoNormal'' separator [],
      Task_retrieveRecords 0 ''backwards'' False True,
      Logger ''infoNormal'' newLine [], Logger ''infoNormal'' Pass3 [],
      Logger ''infoNormal'' separator [],
      Task_retrieveRecords 0 ''forwards'' True False, Logger ''infoNormal'' noRecords [],
      Logger ''infoMinimal'' newLine [], Logger ''infoMinimal'' target [],
      Logger ''infoMinimal'' separator [],
      Task_retrieveRecords 0 ''target'' False False, Logger ''infoNormal'' noRecords [],
      Logger ''infoNormal'' retrievingDataCompleted [[]],
      Logger ''infoNormal'' newLine [], Logger ''headerNormal'' fetchingSummary [],
      Logger ''infoNormal'' queryingTotallyFetched [''Account'', ''0/0'']]"
  using retrieveRecords_five_loops[of "quietCollaborators 2" oneTaskJob 0 "[]"]
  by (simp add: quietCollaborators_def noRecordsMessage_def sObjectName_def accountTask_def
      object_def String_of_number.simps)

section \<open>Validation and repair of the CSV files\<close>

lemma prompts_append [simp]: "prompts (a @ b) = prompts a + prompts b"
  by (simp add: prompts_def)

lemma prompts_Nil [simp]: "prompts [] = 0"
  by (simp add: prompts_def)

lemma prompts_Cons [simp]: "prompts (e # es) = (if isPrompt e then 1 else 0) + prompts es"
  by (simp add: prompts_def)

lemma snd_logger: "snd (logger m msg toks r) = snd r @ [Logger m msg toks]"
  by (simp add: logger_def)

lemma fst_logger [simp]: "fst (logger m msg toks r) = fst r"
  by (simp add: logger_def)

lemma prompts_logger [simp]: "prompts (snd (logger m msg toks r)) = prompts (snd r)"
  by (simp add: logger_def)

lemma prompts_saveCSVFileAsync [simp]:
  "prompts (snd (saveCSVFileAsync cap job fileName data r)) = prompts (snd r)"
  by (simp add: saveCSVFileAsync_def Let_def)

lemma prompts_saveCachedLoop [simp]:
  "prompts (snd (saveCachedLoop cap cache ks r)) = prompts (snd r)"
  by (induction ks arbitrary: r) (simp_all add: Let_def split: option.splits)

lemma prompts_saveCachedCsvDataFiles [simp]:
  "prompts (snd (saveCachedCsvDataFiles cap job r)) = prompts (snd r)"
  by (simp add: saveCachedCsvDataFiles_def)

lemma prompts_validateLoop [simp]:
  "prompts (snd (snd (validateLoop cap ts (issues, r)))) = prompts (snd r)"
proof (induction ts arbitrary: issues r)
  case Nil
  show ?case by simp
next
  case (Cons task rest)
  obtain w tr where r: "r = (w, tr)" by (cases r)
  show ?case by (simp add: r Cons.IH split_beta Let_def)
qed

lemma prompts_repairLoop [simp]:
  "prompts (snd (snd (snd (repairLoop cap ts (issues, cache, r))))) = prompts (snd r)"
proof (induction ts arbitrary: issues cache r)
  case Nil
  show ?case by simp
next
  case (Cons task rest)
  obtain w tr where r: "r = (w, tr)" by (cases r)
  show ?case by (simp add: r Cons.IH split_beta Let_def)
qed

lemma prompts_abortwithPrompt [simp]:
  "prompts (snd (snd (abortwithPrompt cap job r))) = prompts (snd r) + 1"
  by (simp add: abortwithPrompt_def split_beta Let_def)

lemma issues_repairLoop:
  "\<exists>found. fst (repairLoop cap ts (issues, cache, r)) = issues @ found"
proof (induction ts arbitrary: issues cache r)
  case Nil
  show ?case by simp
next
  case (Cons task rest)
  obtain w tr where r: "r = (w, tr)" by (cases r)
  from Cons.IH[of "issues @ fst (fst (task_repairCSV cap task cache w))"
      "snd (fst (task_repairCSV cap task cache w))"
      "(snd (task_repairCSV cap task cache w),
        tr @ [Task_repairCSV (ref task) (fst (fst (task_repairCSV cap task cache w)))])"]
  show ?case
    by (auto simp add: r split_beta Let_def)
qed

lemma issues_repairLoop_nonempty:
  "issues \<noteq> [] \<Longrightarrow> fst (repairLoop cap ts (issues, cache, r)) \<noteq> []"
  using issues_repairLoop[of cap ts issues cache r] by auto

text \<open>
  C5. In \<open>_validateAndRepairSourceCSVFiles\<close>: when issues exist after the validation loop
  (phase A), the prompt is called exactly once in the whole method, however many issues
  and tasks there are and whether the user goes on or not; when there are none after
  phase A but some after the repair loop (phase B), the prompt is called once, after the
  files are saved; when the first prompt was shown and the user went on, the method ends
  by writing the issues to the report file and logging the warning with the number of
  issues and the name of the report file, without a second prompt; and when there are no
  issues at all, no prompt is called and the method ends with the no-issues message.
\<close>

theorem validateAndRepair_prompts_once:
  "(csvIssues (fst (afterValidation cap job r)) \<noteq> []
      \<longrightarrow> prompts (snd (snd (snd (validateAndRepairSourceCSVFiles cap job r)))) = prompts (snd r) + 1)
   \<and> (csvIssues (fst (afterValidation cap job r)) = []
        \<and> csvIssues (fst (snd (validateAndRepairSourceCSVFiles cap job r))) \<noteq> []
      \<longrightarrow> prompts (snd (snd (snd (validateAndRepairSourceCSVFiles cap job r)))) = prompts (snd r) + 1)
   \<and> (csvIssues (fst (afterValidation cap job r)) \<noteq> []
        \<and> fst (validateAndRepairSourceCSVFiles cap job r) = Inr ()
      \<longrightarrow> (\<exists>evs. snd (snd (snd (validateAndRepairSourceCSVFiles cap job r))) =
            evs @ [Logger ''infoVerbose'' writingToCSV
                     [path_join cap (basePath (script job)) (CSV_ISSUES_ERRORS_FILENAME cap)],
                   Common_writeCsvFileAsync
                     (path_join cap (basePath (script job)) (CSV_ISSUES_ERRORS_FILENAME cap))
                     (map issueRow (csvIssues (fst (snd (validateAndRepairSourceCSVFiles cap job r))))),
                   Logger ''warn'' issuesFoundDuringCSVValidation
                     [String_of_number
                        (length (csvIssues (fst (snd (validateAndRepairSourceCSVFiles cap job r))))),
                      CSV_ISSUES_ERRORS_FILENAME cap]]))
   \<and> (csvIssues (fst (snd (validateAndRepairSourceCSVFiles cap job r))) = []
      \<longrightarrow> fst (validateAndRepairSourceCSVFiles cap job r) = Inr ()
          \<and> prompts (snd (snd (snd (validateAndRepairSourceCSVFiles cap job r)))) = prompts (snd r)
          \<and> last (snd (snd (snd (validateAndRepairSourceCSVFiles cap job r))))
              = Logger ''infoVerbose'' noIssuesFoundDuringCSVValidation [])"
proof -
  let ?A = "validateLoop cap (tasks job) (csvIssues job, r)"
  let ?job1 = "job\<lparr>csvIssues := fst ?A\<rparr>"
  let ?P = "abortwithPrompt cap ?job1 (snd ?A)"
  let ?r2 = "if fst ?A \<noteq> [] then snd ?P else snd ?A"
  let ?B = "repairLoop cap (tasks job) (fst ?A, cachedCSVContent job, ?r2)"
  let ?job2 = "?job1\<lparr>csvIssues := fst ?B, cachedCSVContent := fst (snd ?B)\<rparr>"
  show ?thesis
  proof (cases "fst ?A = []")
    case True
    then show ?thesis
      by (auto simp add: validateAndRepairSourceCSVFiles_def afterValidation_def saveAndReport_def
          snd_logger split_beta Let_def)
  next
    case False
    note issuesA = this
    show ?thesis
    proof (cases "fst ?P")
      case (Inl e)
      with issuesA show ?thesis
        by (simp add: validateAndRepairSourceCSVFiles_def afterValidation_def split_beta Let_def)
    next
      case (Inr u)
      have "fst (repairLoop cap (tasks job) (fst ?A, cachedCSVContent job, snd ?P)) \<noteq> []"
        using issuesA by (rule issues_repairLoop_nonempty)
      with issuesA Inr show ?thesis
        by (simp add: validateAndRepairSourceCSVFiles_def afterValidation_def saveAndReport_def
            saveCSVFileAsync_def snd_logger split_beta Let_def)
    qed
  qed
qed

theorem validateAndRepair_prompts_once_witness:
  "csvIssues (fst (afterValidation
       ((quietCollaborators 0)\<lparr>task_validateCSV := (\<lambda>task w. ([missingColumn], w))\<rparr>)
       oneTaskJob (0, []))) = [missingColumn]
   \<and> prompts (snd (snd (snd (validateAndRepairSourceCSVFiles
       ((quietCollaborators 0)\<lparr>task_validateCSV := (\<lambda>task w. ([missingColumn], w))\<rparr>)
       oneTaskJob (0, []))))) = 1"
proof -
  let ?cap = "(quietCollaborators 0)\<lparr>task_validateCSV := (\<lambda>task w. ([missingColumn], w))\<rparr>"
  have h: "csvIssues (fst (afterValidation ?cap oneTaskJob (0, []))) = [missingColumn]"
    by (simp add: afterValidation_def quietCollaborators_def)
  then have "csvIssues (fst (afterValidation ?cap oneTaskJob (0, []))) \<noteq> []" by simp
  with validateAndRepair_prompts_once[of ?cap oneTaskJob "(0, [])"]
  have "prompts (snd (snd (snd (validateAndRepairSourceCSVFiles ?cap oneTaskJob (0, [])))))
      = prompts (snd (0::nat, [])) + 1" by blast
  with h show ?thesis by simp
qed

lemma script_loadCSVValueMappingFileAsync [simp]:
  "script (fst (loadCSVValueMappingFileAsync cap job r)) = script job"
  by (simp add: loadCSVValueMappingFileAsync_def split_beta Let_def)

lemma script_beforeValidation [simp]:
  "script (fst (beforeValidation cap job r)) = script job"
  by (simp add: beforeValidation_def split_beta Let_def)

lemma script_validateAndRepair [simp]:
  "script (fst (snd (validateAndRepairSourceCSVFiles cap job r))) = script job"
  by (simp add: validateAndRepairSourceCSVFiles_def split_beta Let_def split: sum.splits)

lemma validateCSVFiles_file:
  assumes "sourceOrg_media (script job) = File" "\<not> importCSVFilesAsIs (script job)"
  shows "validateCSVFiles cap job r =
     (let (job2, r4) = beforeValidation cap job r;
          (res, job5, r5) = validateAndRepairSourceCSVFiles cap job2 r4
      in case res of
           Inl e \<Rightarrow> (Inl e, job5, r5)
         | Inr u \<Rightarrow>
             if validateCSVFilesOnly (script job)
             then (Inl SuccessExit, job5,
                   logger ''infoVerbose'' validationAndFixingsourceCSVFilesCompleted [] r5)
             else (Inr (), clearCachedCSVData job5,
                   logger ''infoVerbose'' validationAndFixingsourceCSVFilesCompleted [] r5))"
  using assms
  by (simp add: validateCSVFiles_def beforeValidation_def split_beta Let_def split: sum.splits)

text \<open>
  C6. When the source is file based, the files are not imported as they are and
  validate-only mode is requested, then, as soon as validation and repair have completed,
  \<open>validateCSVFiles\<close> throws \<open>SuccessExit\<close>: the job is exactly as the validation left it
  (its cached CSV content is not cleared), and the run holds the one message that
  validation is complete and nothing after it (no call of any task).
\<close>

theorem validateCSVFiles_validate_only:
  assumes "sourceOrg_media (script job) = File" and "\<not> importCSVFilesAsIs (script job)"
    and "validateCSVFilesOnly (script job)"
    and "validateAndRepairSourceCSVFiles cap (fst (beforeValidation cap job r))
           (snd (beforeValidation cap job r)) = (Inr (), job', r')"
  shows "validateCSVFiles cap job r =
     (Inl SuccessExit, job',
      fst r', snd r' @ [Logger ''infoVerbose'' validationAndFixingsourceCSVFilesCompleted []])"
  using assms by (simp add: validateCSVFiles_file split_beta logger_def)

lemma validateAndRepair_quiet:
  "fst (validateAndRepairSourceCSVFiles (quietCollaborators 0) job r) = Inr ()"
  if "csvIssues job = []" "tasks job = [accountTask]"
  using that
  by (cases r) (simp add: validateAndRepairSourceCSVFiles_def saveAndReport_def quietCollaborators_def
      split_beta Let_def)

theorem validateCSVFiles_validate_only_witness:
  "fst (validateCSVFiles (quietCollaborators 0)
         (oneTaskJob\<lparr>script := (script oneTaskJob)\<lparr>validateCSVFilesOnly := True\<rparr>\<rparr>) (0, []))
     = Inl SuccessExit"
proof -
  let ?cap = "quietCollaborators 0"
  let ?job = "oneTaskJob\<lparr>script := (script oneTaskJob)\<lparr>validateCSVFilesOnly := True\<rparr>\<rparr>"
  let ?X = "validateAndRepairSourceCSVFiles ?cap (fst (beforeValidation ?cap ?job (0, [])))
              (snd (beforeValidation ?cap ?job (0, [])))"
  have h1: "sourceOrg_media (script ?job) = File" and h2: "\<not> importCSVFilesAsIs (script ?job)"
    and h3: "validateCSVFilesOnly (script ?job)"
    by (simp_all add: scriptOf_def)
  have b: "csvIssues (fst (beforeValidation ?cap ?job (0, []))) = []"
    "tasks (fst (beforeValidation ?cap ?job (0, []))) = [accountTask]"
    by (simp_all add: beforeValidation_def loadCSVValueMappingFileAsync_def quietCollaborators_def
        split_beta Let_def)
  have "fst ?X = Inr ()" using b by (rule validateAndRepair_quiet)
  then have h4: "?X = (Inr (), fst (snd ?X), snd (snd ?X))" by (metis prod.collapse)
  from validateCSVFiles_validate_only[OF h1 h2 h3 h4] show ?thesis by simp
qed

text \<open>Without validate-only mode the same run goes on, with the cached CSV content cleared.\<close>

lemma validateCSVFiles_continues:
  assumes "sourceOrg_media (script job) = File" and "\<not> importCSVFilesAsIs (script job)"
    and "\<not> validateCSVFilesOnly (script job)"
    and "validateAndRepairSourceCSVFiles cap (fst (beforeValidation cap job r))
           (snd (beforeValidation cap job r)) = (Inr (), job', r')"
  shows "validateCSVFiles cap job r =
     (Inr (), job'\<lparr>cachedCSVContent := clear (cachedCSVContent job')\<rparr>,
      fst r', snd r' @ [Logger ''infoVerbose'' validationAndFixingsourceCSVFilesCompleted []])"
  using assms by (simp add: validateCSVFiles_file split_beta logger_def clearCachedCSVData_def)

section \<open>The identifiers of the cached CSV content\<close>

lemma of_char_digit:
  assumes "n < 10"
  shows "of_char (''0123456789'' ! n) = 48 + n"
proof -
  from assms have "n \<in> {0, 1, 2, 3, 4, 5, 6, 7, 8, 9}" by auto
  then show ?thesis by auto
qed

lemma digit_less:
  assumes "a < b" "b < 10"
  shows "''0123456789'' ! a < ''0123456789'' ! b"
proof -
  from assms have a: "a < 10" by simp
  show ?thesis
    unfolding less_char_def of_char_digit[OF a] of_char_digit[OF assms(2)] using assms(1) by simp
qed

lemma String_of_number_small: "n < 10 \<Longrightarrow> String_of_number n = [''0123456789'' ! n]"
  by (subst String_of_number.simps) simp

lemma String_of_number_big:
  "\<not> n < 10 \<Longrightarrow> String_of_number n = String_of_number (n div 10) @ [''0123456789'' ! (n mod 10)]"
  by (subst String_of_number.simps) simp

lemma pad_small: "n < 10 \<Longrightarrow> addLeadnigZeros n (Suc w) = replicate w CHR ''0'' @ [''0123456789'' ! n]"
  by (simp add: addLeadnigZeros_def String_of_number_small)

lemma pad_big:
  "\<not> n < 10 \<Longrightarrow>
     addLeadnigZeros n (Suc w) = addLeadnigZeros (n div 10) w @ [''0123456789'' ! (n mod 10)]"
  by (simp add: addLeadnigZeros_def String_of_number_big)

lemma fixedDecimal_zero: "fixedDecimal w 0 = replicate w CHR ''0''"
  by (induction w) (simp_all add: replicate_append_same)

lemma length_fixedDecimal [simp]: "length (fixedDecimal w n) = w"
  by (induction w arbitrary: n) simp_all

lemma pad_fixed: "n < 10 ^ Suc w \<Longrightarrow> addLeadnigZeros n (Suc w) = fixedDecimal (Suc w) n"
proof (induction w arbitrary: n)
  case 0
  then show ?case by (simp add: pad_small)
next
  case (Suc w)
  show ?case
  proof (cases "n < 10")
    case True
    then show ?thesis by (simp add: pad_small fixedDecimal_zero replicate_append_same)
  next
    case False
    from Suc.prems have "n div 10 < 10 ^ Suc w" by (simp add: less_mult_imp_div_less)
    from Suc.IH[OF this] False show ?thesis by (simp add: pad_big)
  qed
qed

lemma less_snoc_less:
  fixes xs ys :: string
  assumes "xs < ys" "length xs = length ys"
  shows "xs @ [a] < ys @ [b]"
  using assms by (simp add: list_less_def lexord_sufI)

lemma less_snoc_same:
  fixes xs :: string
  assumes "a < b"
  shows "xs @ [a] < xs @ [b]"
  using assms by (simp add: list_less_def lexord_append_leftI)

lemma fixedDecimal_mono: "j < k \<Longrightarrow> k < 10 ^ w \<Longrightarrow> fixedDecimal w j < fixedDecimal w k"
proof (induction w arbitrary: j k)
  case 0
  then show ?case by simp
next
  case (Suc w)
  show ?case
  proof (cases "j div 10 < k div 10")
    case True
    from Suc.prems have "k div 10 < 10 ^ w" by (simp add: less_mult_imp_div_less)
    from Suc.IH[OF True this] show ?thesis by (simp add: less_snoc_less)
  next
    case False
    with Suc.prems(1) have eq: "j div 10 = k div 10"
      by (metis div_le_mono le_neq_implies_less less_imp_le_nat)
    with Suc.prems(1) have "j mod 10 < k mod 10"
      by (metis add_less_cancel_left mult_div_mod_eq)
    then have "''0123456789'' ! (j mod 10) < ''0123456789'' ! (k mod 10)"
      by (rule digit_less) simp
    then show ?thesis by (simp add: eq less_snoc_same)
  qed
qed

lemma identifier_mono:
  assumes "j < k" "k < 10 ^ 16"
  shows "''ID'' @ addLeadnigZeros j 16 < ''ID'' @ addLeadnigZeros k 16"
proof -
  have s: "(16::nat) = Suc 15" by simp
  from assms have "j < 10 ^ Suc 15" "k < 10 ^ Suc 15" by simp_all
  then have "addLeadnigZeros j 16 = fixedDecimal 16 j" "addLeadnigZeros k 16 = fixedDecimal 16 k"
    unfolding s by (simp_all only: pad_fixed)
  moreover from assms have "fixedDecimal 16 j < fixedDecimal 16 k" by (rule fixedDecimal_mono)
  ultimately show ?thesis by (simp add: list_less_def lexord_append_leftI)
qed

lemma nextId_fields [simp]:
  "fst (nextId c) = ''ID'' @ addLeadnigZeros (idCounter c) 16"
  "idCounter (snd (nextId c)) = number_increment (idCounter c)"
  by (simp_all add: nextId_def)

lemma nextIds_Suc:
  "nextIds (Suc n) c = (fst (nextId c) # fst (nextIds n (snd (nextId c))), snd (nextIds n (snd (nextId c))))"
  by (simp add: split_beta)

declare nextIds.simps(2) [simp del]

lemma nextIds_exact:
  "idCounter c + n \<le> 2 ^ 53 + 1 \<Longrightarrow>
     fst (nextIds n c) = map (\<lambda>k. ''ID'' @ addLeadnigZeros k 16) [idCounter c..<idCounter c + n]"
proof (induction n arbitrary: c)
  case 0
  show ?case by simp
next
  case (Suc n)
  show ?case
  proof (cases n)
    case 0
    then show ?thesis by (simp add: nextIds_Suc)
  next
    case (Suc m)
    with Suc.prems have "idCounter c < 2 ^ 53" by simp
    then have inc: "number_increment (idCounter c) = Suc (idCounter c)"
      by (simp add: number_increment_def)
    with Suc.prems have "idCounter (snd (nextId c)) + n \<le> 2 ^ 53 + 1" by simp
    from Suc.IH[OF this] show ?thesis
      by (simp add: nextIds_Suc inc upt_conv_Cons del: upt_Suc)
  qed
qed

lemma idCounter_clear [simp]: "idCounter (clear c) = 1"
  by (simp add: clear_def)

text \<open>
  C7. \<open>clear\<close> empties the cache map and the set of updated files and sets the counter
  to 1. The reads of \<open>nextId\<close> that follow it return the prefix "ID" followed by the
  numbers 1, 2, 3, ... in the order of the reads, each zero-padded to 16 decimal digits
  (18 characters in all); the identifiers are strictly increasing as strings and pairwise
  distinct. The first three are ID0000000000000001, ID0000000000000002,
  ID0000000000000003. This is stated for every number \<open>n\<close> of reads up to \<open>2 ^ 53\<close>, the
  range in which \<open>idCounter++\<close> is exact; one cache serves far fewer reads than that.
\<close>

theorem nextId_fresh_identifiers:
  assumes "n \<le> 2 ^ 53"
  shows "clear c = c\<lparr>csvDataCacheMap := [], updatedFilenames := [], idCounter := 1\<rparr>
     \<and> fst (nextIds n (clear c)) = map (\<lambda>k. ''ID'' @ addLeadnigZeros k 16) [1..<Suc n]
     \<and> map length (fst (nextIds n (clear c))) = replicate n 18
     \<and> sorted_wrt (<) (fst (nextIds n (clear c)))
     \<and> distinct (fst (nextIds n (clear c)))"
proof -
  let ?f = "\<lambda>k. ''ID'' @ addLeadnigZeros k 16"
  from assms have "idCounter (clear c) + n \<le> 2 ^ 53 + 1" by simp
  from nextIds_exact[OF this] have ids: "fst (nextIds n (clear c)) = map ?f [1..<Suc n]" by simp
  have small: "k < 10 ^ 16" if "k \<in> set [1..<Suc n]" for k
  proof -
    from that have "k \<le> n" by auto
    with assms have "k \<le> 2 ^ 53" by (rule order_trans[rotated])
    also have "(2::nat) ^ 53 < 10 ^ 16" by simp
    finally show ?thesis .
  qed
  have len: "length (?f k) = 18" if "k \<in> set [1..<Suc n]" for k
  proof -
    have s: "(16::nat) = Suc 15" by simp
    from small[OF that] have "k < 10 ^ Suc 15" by simp
    then have "addLeadnigZeros k 16 = fixedDecimal 16 k" unfolding s by (simp only: pad_fixed)
    then show ?thesis by simp
  qed
  have "map length (map ?f [1..<Suc n]) = map (\<lambda>k. 18) [1..<Suc n]"
    unfolding map_map comp_def by (rule map_cong[OF refl]) (rule len)
  then have lens: "map length (map ?f [1..<Suc n]) = replicate n 18"
    by (simp add: map_replicate_const del: upt_Suc)
  have sorted: "sorted_wrt (<) (map ?f [1..<Suc n])"
    unfolding sorted_wrt_map
  proof (rule sorted_wrt_mono_rel[of _ "(<)"])
    fix j k assume "j \<in> set [1..<Suc n]" "k \<in> set [1..<Suc n]" "j < k"
    with small[of k] show "?f j < ?f k" by (intro identifier_mono)
  next
    show "sorted_wrt (<) [1..<Suc n]" by (rule sorted_wrt_upt)
  qed
  then have "distinct (map ?f [1..<Suc n])" by (simp only: strict_sorted_iff)
  with sorted lens ids show ?thesis by (simp add: clear_def)
qed

lemma replicate_15: "replicate 15 x = [x, x, x, x, x, x, x, x, x, x, x, x, x, x, x]"
  by (simp add: numeral_eq_Suc)

lemma first_three_padded:
  "addLeadnigZeros (Suc 0) 16 = ''0000000000000001''"
  "addLeadnigZeros 2 16 = ''0000000000000002''"
  "addLeadnigZeros 3 16 = ''0000000000000003''"
  by (simp_all add: addLeadnigZeros_def String_of_number_small replicate_15)

theorem nextId_fresh_identifiers_witness:
  "(3::nat) \<le> 2 ^ 53
   \<and> fst (nextIds 3 (clear CachedCSVContent_new))
       = [''ID0000000000000001'', ''ID0000000000000002'', ''ID0000000000000003'']"
proof -
  have h: "(3::nat) \<le> 2 ^ 53" by simp
  from nextId_fresh_identifiers[OF h, of CachedCSVContent_new]
  have "fst (nextIds 3 (clear CachedCSVContent_new))
      = map (\<lambda>k. ''ID'' @ addLeadnigZeros k 16) [1..<Suc 3]" by blast
  also have "[1..<Suc 3] = [Suc 0, 2, 3]" by (simp add: upt_rec)
  finally show ?thesis using h by (simp add: first_three_padded)
qed

end
